(* ===== verification/Prelude.thy ===== *)
theory Prelude
  imports Main "HOL-Library.AList" "HOL-Library.Multiset"
begin

text \<open>
  Shared vocabulary of the myAtmosphere development: the names of the model's base types,
  the JavaScript value conventions the source relies on (truthiness of optional strings,
  \<open>startsWith\<close>, insertion-ordered \<open>Set\<close>), and the generic lemmas on lists and
  association lists that the component theories share through the collection
  \<open>store_simps\<close>.
\<close>

named_theorems store_simps "equations of the key/value store and the cache over it"

type_synonym did = string
type_synonym uri = string
type_synonym time = int

text \<open>
  \<open>time\<close> is a JavaScript millisecond timestamp (\<open>Date.now()\<close>, \<open>Date.getTime()\<close>). These
  values are far below \<open>2^53\<close>, so the doubles of the source hold them exactly and
  the model uses unbounded \<open>int\<close>.

  \<open>if (cursor)\<close>, \<open>!cursor\<close> and \<open>profile.avatar && ...\<close> treat an absent value
  (\<open>null\<close>, \<open>undefined\<close>) and the empty string alike as false.
\<close>

fun js_truthy :: "string option \<Rightarrow> bool" where
  "js_truthy None = False"
| "js_truthy (Some s) = (s \<noteq> [])"

text \<open>\<open>s.startsWith(p)\<close>.\<close>

definition startsWith :: "string \<Rightarrow> string \<Rightarrow> bool" where
  "startsWith s p \<longleftrightarrow> take (length p) s = p"

text \<open>
  A JavaScript \<open>Set\<close> iterates in insertion order; \<open>set.add(x)\<close> appends \<open>x\<close> when
  it is new and does nothing otherwise.
\<close>

definition set_add :: "'a \<Rightarrow> 'a list \<Rightarrow> 'a list" where
  "set_add x xs = (if x \<in> set xs then xs else xs @ [x])"

subsection \<open>Lemmas\<close>

lemma startsWith_append [simp]: "startsWith (p @ s) p"
  by (simp add: startsWith_def)

lemma set_set_add [simp]: "set (set_add x xs) = insert x (set xs)"
  by (auto simp: set_add_def)

lemma distinct_set_add [simp]: "distinct xs \<Longrightarrow> distinct (set_add x xs)"
  by (simp add: set_add_def)

lemma set_add_present [simp]: "x \<in> set xs \<Longrightarrow> set_add x xs = xs"
  by (simp add: set_add_def)

declare update_conv' [store_simps] delete_conv' [store_simps]

lemma map_insort_key: "map g (insort_key (\<lambda>x. h (g x)) x xs) = insort_key h (g x) (map g xs)"
  by (induction xs) auto

lemma map_sort_key: "map g (sort_key (\<lambda>x. h (g x)) xs) = sort_key h (map g xs)"
  by (induction xs) (simp_all add: map_insort_key)

lemma map_option_cong_Some: "(\<And>a. x = Some a \<Longrightarrow> g a = h a) \<Longrightarrow> map_option g x = map_option h x"
  by (cases x) auto

lemma map_of_filter_keys:
  "map_of (filter (\<lambda>(k, v). P k) al) k = (if P k then map_of al k else None)"
  by (induction al) auto

end
