(* ===== verification/Bsky_Types.thy ===== *)
theory Bsky_Types
  imports Prelude
begin

text \<open>
  The data model of \<open>src/utils/bluesky.ts\<close> (its TypeScript interfaces, lines 7--97) and
  the interface of the remote XRPC API that the code calls through \<open>fetch\<close>. Interfaces
  become records, the optional fields \<open>x?: T\<close> become \<open>T option\<close>, the recursive
  \<open>BlueskyEmbeddedRecord\<close> and \<open>BlueskyThreadItem\<close> become datatypes. The ISO-8601
  \<open>indexedAt\<close> string of a post is represented by the instant \<open>new Date(s).getTime()\<close>
  denotes, the only use the code makes of it.
\<close>

record author =
  did :: did
  handle :: string
  displayName :: "string option"
  avatar :: "string option"

record facet_feature =
  feature_type :: string
  feature_uri :: "string option"
  feature_did :: "string option"

record facet =
  byteStart :: nat
  byteEnd :: nat
  features :: "facet_feature list"

record reply_ref =
  parent_uri :: uri
  root_uri :: uri

record bsky_record =
  rec_text :: "string option"
  rec_createdAt :: string
  rec_facets :: "facet list option"
  rec_reply :: "reply_ref option"
  rec_type :: "string option"

record image =
  fullsize :: string
  thumb :: string
  alt :: "string option"

datatype embedded_record = EmbeddedRecord
  (er_type: string)
  (er_uri: "uri option")
  (er_cid: "string option")
  (er_author: "author option")
  (er_value: "bsky_record option")
  (er_indexedAt: "string option")
  (er_createdAt: "string option")
  (er_record: "embedded_record option")

record media =
  media_type :: string
  media_images :: "image list option"

record embed =
  embed_type :: string
  embed_images :: "image list option"
  embed_record :: "embedded_record option"
  embed_media :: "media option"

record post =
  uri :: uri
  cid :: string
  post_author :: author
  post_record :: bsky_record
  post_embed :: "embed option"
  indexedAt :: time
  likeCount :: "nat option"
  repostCount :: "nat option"
  replyCount :: "nat option"

record reason =
  reason_type :: string
  reason_by :: "author option"
  reason_indexedAt :: "string option"

record feed_item =
  post :: post
  reason :: "reason option"

datatype thread_item = ThreadItem
  (item: feed_item)
  (children: "thread_item list")
  (isThreadRoot: bool)

record posts_response =
  resp_posts :: "thread_item list"
  resp_cursor :: "string option"

record profile_data =
  profile_did :: did
  profile_handle :: string
  profile_displayName :: "string option"
  pronouns :: "string option"
  profile_avatar :: "string option"
  banner :: "string option"
  description :: "string option"
  followersCount :: "nat option"
  followsCount :: "nat option"
  postsCount :: "nat option"
  profile_createdAt :: "string option"
  profile_indexedAt :: "string option"

definition item_uri :: "feed_item \<Rightarrow> uri" where
  "item_uri it = uri (post it)"

definition thread_uri :: "thread_item \<Rightarrow> uri" where
  "thread_uri t = item_uri (item t)"

definition thread_time :: "thread_item \<Rightarrow> time" where
  "thread_time t = indexedAt (post (item t))"

text \<open>
  Concrete values for the witnesses: a text post by author \<open>a\<close> at instant \<open>t\<close>,
  replying to \<open>parent\<close> when given, and the plain feed entry that carries it.
\<close>

definition example_author :: "did \<Rightarrow> author" where
  "example_author a = \<lparr>did = a, handle = a, displayName = None, avatar = None\<rparr>"

definition example_post :: "uri \<Rightarrow> did \<Rightarrow> uri option \<Rightarrow> time \<Rightarrow> post" where
  "example_post u a parent t =
     \<lparr>uri = u, cid = [], post_author = example_author a,
      post_record = \<lparr>rec_text = Some [], rec_createdAt = [], rec_facets = None,
        rec_reply = map_option (\<lambda>p. \<lparr>parent_uri = p, root_uri = p\<rparr>) parent,
        rec_type = Some ''app.bsky.feed.post''\<rparr>,
      post_embed = None, indexedAt = t, likeCount = None, repostCount = None,
      replyCount = None\<rparr>"

definition example_item :: "uri \<Rightarrow> did \<Rightarrow> uri option \<Rightarrow> time \<Rightarrow> feed_item" where
  "example_item u a parent t = \<lparr>post = example_post u a parent t, reason = None\<rparr>"

definition example_profile :: "did \<Rightarrow> string option \<Rightarrow> profile_data" where
  "example_profile a av =
     \<lparr>profile_did = a, profile_handle = a, profile_displayName = None, pronouns = None,
      profile_avatar = av, banner = None, description = None, followersCount = None,
      followsCount = None, postsCount = None, profile_createdAt = None, profile_indexedAt = None\<rparr>"

subsection \<open>The remote API\<close>

text \<open>
  The XRPC endpoints the code requests, as functions of their query parameters. A
  response is \<open>HOk\<close> with the decoded JSON body, \<open>HStatus n\<close> for a non-2xx status
  (\<open>!response.ok\<close>), or \<open>HNetErr\<close> when \<open>fetch\<close> or \<open>response.json()\<close> rejects.
  \<open>getPostThread\<close> at depth 0 answers with a thread view that carries the post, a view
  without a \<open>post\<close> field (a blocked or not-found view), or a body without \<open>thread\<close>.
\<close>

datatype 'a http = HOk 'a | HStatus nat | HNetErr

datatype thread_view = ThreadPost post | ThreadNoPost | ThreadMalformed

record feed_page =
  feed :: "feed_item list"
  page_cursor :: "string option"

record api =
  resolveHandle :: "string \<Rightarrow> did http"
  getAuthorFeed :: "did \<Rightarrow> nat \<Rightarrow> string option \<Rightarrow> feed_page http"
  getPostThread :: "uri \<Rightarrow> thread_view http"
  getProfile :: "string \<Rightarrow> profile_data http"

subsection \<open>Lemmas\<close>

lemma example_post_simps [simp]:
  "did (post_author (example_post u a par t)) = a"
  "rec_reply (post_record (example_post u a par t)) = map_option (\<lambda>p. \<lparr>parent_uri = p, root_uri = p\<rparr>) par"
  "rec_text (post_record (example_post u a par t)) = Some []"
  "rec_type (post_record (example_post u a par t)) = Some ''app.bsky.feed.post''"
  "uri (example_post u a par t) = u"
  "indexedAt (example_post u a par t) = t"
  "post_embed (example_post u a par t) = None"
  by (simp_all add: example_post_def example_author_def)

lemma example_item_simps [simp]:
  "post (example_item u a par t) = example_post u a par t"
  "reason (example_item u a par t) = None"
  "item_uri (example_item u a par t) = u"
  by (simp_all add: example_item_def item_uri_def)

end
