(* ===== verification/Cache.thy ===== *)
theory Cache
  imports Bsky_Types
begin

text \<open>
  The client-side cache, \<open>class Cache\<close> of \<open>src/unnamed/part_000\<close> (the repository's
  \<open>utils/cache.ts\<close>), over the browser's \<open>localStorage\<close>. The store is an association
  list from keys to stored strings; a stored string is either the JSON of a
  \<open>CacheItem\<close> or text that does not decode to one. \<open>setItem\<close> throws when the store
  is full or not writable. Each cache operation takes the current time \<open>now\<close>
  (\<open>Date.now()\<close>) and returns the new store; the methods that answer a value return it
  paired with the store, since a read may evict.
\<close>

subsection \<open>The browser store\<close>

record posts_cache_data =
  pc_posts :: "thread_item list"
  pc_cursor :: "string option"
  pc_handle :: string

datatype cache_data = CPosts posts_cache_data | CProfile profile_data

record cache_item =
  data :: cache_data
  timestamp :: time
  expiry :: int

datatype stored = Stored cache_item | Corrupt

record storage =
  entries :: "(string \<times> stored) list"
  writable :: bool

definition getItem :: "storage \<Rightarrow> string \<Rightarrow> stored option" where
  "getItem ls k = map_of (entries ls) k"

definition setItem :: "storage \<Rightarrow> string \<Rightarrow> stored \<Rightarrow> storage option" where
  "setItem ls k v = (if writable ls then Some (ls\<lparr>entries := AList.update k v (entries ls)\<rparr>) else None)"

definition removeItem :: "storage \<Rightarrow> string \<Rightarrow> storage" where
  "removeItem ls k = ls\<lparr>entries := AList.delete k (entries ls)\<rparr>"

definition storage_keys :: "storage \<Rightarrow> string list" where
  "storage_keys ls = map fst (entries ls)"

subsection \<open>The generic cache\<close>

definition CACHE_PREFIX :: string where "CACHE_PREFIX = ''bskyweb_cache_''"
definition DEFAULT_TTL :: int where "DEFAULT_TTL = 5 * 60 * 1000"
definition POSTS_TTL :: int where "POSTS_TTL = 2 * 60 * 1000"
definition PROFILE_TTL :: int where "PROFILE_TTL = 30 * 60 * 1000"

definition getKey :: "string \<Rightarrow> string" where
  "getKey key = CACHE_PREFIX @ key"

definition isExpired :: "time \<Rightarrow> cache_item \<Rightarrow> bool" where
  "isExpired now it \<longleftrightarrow> now > timestamp it + expiry it"

text \<open>\<open>ttl || this.DEFAULT_TTL\<close>: an absent or zero TTL falls back to the default.\<close>

fun ttl_or_default :: "int option \<Rightarrow> int" where
  "ttl_or_default None = DEFAULT_TTL"
| "ttl_or_default (Some t) = (if t = 0 then DEFAULT_TTL else t)"

definition cache_set :: "storage \<Rightarrow> time \<Rightarrow> string \<Rightarrow> cache_data \<Rightarrow> int option \<Rightarrow> storage" where
  "cache_set ls now key d ttl =
     (case setItem ls (getKey key)
             (Stored \<lparr>data = d, timestamp = now, expiry = ttl_or_default ttl\<rparr>) of
        Some ls' \<Rightarrow> ls'
      | None \<Rightarrow> ls)"

definition cache_delete :: "storage \<Rightarrow> string \<Rightarrow> storage" where
  "cache_delete ls key = removeItem ls (getKey key)"

definition cache_get :: "storage \<Rightarrow> time \<Rightarrow> string \<Rightarrow> cache_data option \<times> storage" where
  "cache_get ls now key =
     (case getItem ls (getKey key) of
        None \<Rightarrow> (None, ls)
      | Some Corrupt \<Rightarrow> (None, ls)
      | Some (Stored it) \<Rightarrow>
          (if isExpired now it then (None, cache_delete ls key) else (Some (data it), ls)))"

definition clear_step :: "string \<Rightarrow> storage \<Rightarrow> storage" where
  "clear_step k ls = (if startsWith k CACHE_PREFIX then removeItem ls k else ls)"

definition cache_clear :: "storage \<Rightarrow> storage" where
  "cache_clear ls = fold clear_step (storage_keys ls) ls"

subsection \<open>Posts and profiles\<close>

definition posts_key :: "string \<Rightarrow> string" where
  "posts_key h = ''posts_'' @ h"

definition profile_key :: "string \<Rightarrow> string" where
  "profile_key h = ''profile_'' @ h"

definition getPosts :: "storage \<Rightarrow> time \<Rightarrow> string \<Rightarrow> posts_cache_data option \<times> storage" where
  "getPosts ls now h =
     (case cache_get ls now (posts_key h) of
        (Some (CPosts d), ls') \<Rightarrow> (Some d, ls')
      | (_, ls') \<Rightarrow> (None, ls'))"

definition setPosts ::
  "storage \<Rightarrow> time \<Rightarrow> string \<Rightarrow> thread_item list \<Rightarrow> string option \<Rightarrow> bool \<Rightarrow> storage" where
  "setPosts ls now h posts cursor isInitial =
     (if isInitial then
        cache_set ls now (posts_key h)
          (CPosts \<lparr>pc_posts = posts, pc_cursor = cursor, pc_handle = h\<rparr>) (Some POSTS_TTL)
      else
        (case getPosts ls now h of
           (Some existing, ls') \<Rightarrow>
             cache_set ls' now (posts_key h)
               (CPosts \<lparr>pc_posts = pc_posts existing @ posts, pc_cursor = cursor, pc_handle = h\<rparr>)
               (Some POSTS_TTL)
         | (None, ls') \<Rightarrow>
             cache_set ls' now (posts_key h)
               (CPosts \<lparr>pc_posts = posts, pc_cursor = cursor, pc_handle = h\<rparr>) (Some POSTS_TTL)))"

definition appendPosts ::
  "storage \<Rightarrow> time \<Rightarrow> string \<Rightarrow> thread_item list \<Rightarrow> string option \<Rightarrow> storage" where
  "appendPosts ls now h newPosts newCursor =
     (case getPosts ls now h of
        (Some existing, ls') \<Rightarrow>
          (let existingUris = set (map thread_uri (pc_posts existing));
               uniqueNewPosts = filter (\<lambda>t. thread_uri t \<notin> existingUris) newPosts
           in if uniqueNewPosts \<noteq> [] then
                cache_set ls' now (posts_key h)
                  (CPosts \<lparr>pc_posts = pc_posts existing @ uniqueNewPosts, pc_cursor = newCursor,
                           pc_handle = h\<rparr>)
                  (Some POSTS_TTL)
              else ls')
      | (None, ls') \<Rightarrow> ls')"

definition setProfile :: "storage \<Rightarrow> time \<Rightarrow> string \<Rightarrow> profile_data \<Rightarrow> storage" where
  "setProfile ls now h p = cache_set ls now (profile_key h) (CProfile p) (Some PROFILE_TTL)"

definition getProfile_cached :: "storage \<Rightarrow> time \<Rightarrow> string \<Rightarrow> profile_data option \<times> storage" where
  "getProfile_cached ls now h =
     (case cache_get ls now (profile_key h) of
        (Some (CProfile p), ls') \<Rightarrow> (Some p, ls')
      | (_, ls') \<Rightarrow> (None, ls'))"

definition getCacheFreshness :: "storage \<Rightarrow> time \<Rightarrow> string \<Rightarrow> (bool \<times> int) option" where
  "getCacheFreshness ls now h =
     (case getItem ls (getKey (posts_key h)) of
        Some (Stored it) \<Rightarrow>
          (let age = now - timestamp it in Some (age < POSTS_TTL, age))
      | _ \<Rightarrow> None)"

text \<open>
  \<open>preloadNextBatch\<close> receives the fetch function as a parameter (the interface the
  root theory instantiates with \<open>fetchUserPosts\<close>): it sees the store, the handle and
  the cursor, and either never settles (\<open>None\<close>), rejects (\<open>Inl\<close>) or resolves with a
  page, together with the store it leaves. A rejection is swallowed.
\<close>

type_synonym 'e fetch_fn =
  "storage \<Rightarrow> string \<Rightarrow> string option \<Rightarrow> (('e + posts_response) \<times> storage) option"

definition preloadNextBatch :: "storage \<Rightarrow> time \<Rightarrow> string \<Rightarrow> 'e fetch_fn \<Rightarrow> storage option" where
  "preloadNextBatch ls now h fetchFunction =
     (case getPosts ls now h of
        (None, ls1) \<Rightarrow> Some ls1
      | (Some cached, ls1) \<Rightarrow>
          (if \<not> js_truthy (pc_cursor cached) then Some ls1
           else (case fetchFunction ls1 h (pc_cursor cached) of
                   None \<Rightarrow> None
                 | Some (Inl _, ls2) \<Rightarrow> Some ls2
                 | Some (Inr response, ls2) \<Rightarrow>
                     Some (if resp_posts response \<noteq> [] then
                             appendPosts ls2 now h (resp_posts response) (resp_cursor response)
                           else ls2))))"

subsection \<open>Cache operations as a step function\<close>

text \<open>
  The methods the rest of the program calls, as one datatype of operations and a step
  function over the store; a run is a sequence of operations, each at its own time.
  The generic \<open>set\<close> is called only through \<open>setPosts\<close>, \<open>appendPosts\<close> and
  \<open>setProfile\<close>, so it is no operation of its own.
\<close>

datatype cache_op =
    SetPosts string "thread_item list" "string option" bool
  | AppendPosts string "thread_item list" "string option"
  | GetPosts string
  | SetProfile string profile_data
  | GetProfile string
  | Delete string
  | Clear

fun cache_step :: "storage \<Rightarrow> time \<times> cache_op \<Rightarrow> storage" where
  "cache_step ls (now, SetPosts h ps c i) = setPosts ls now h ps c i"
| "cache_step ls (now, AppendPosts h ps c) = appendPosts ls now h ps c"
| "cache_step ls (now, GetPosts h) = snd (getPosts ls now h)"
| "cache_step ls (now, SetProfile h p) = setProfile ls now h p"
| "cache_step ls (now, GetProfile h) = snd (getProfile_cached ls now h)"
| "cache_step ls (now, Delete k) = cache_delete ls k"
| "cache_step ls (now, Clear) = cache_clear ls"

definition cache_run :: "storage \<Rightarrow> (time \<times> cache_op) list \<Rightarrow> storage" where
  "cache_run ls ops = fold (\<lambda>e ls. cache_step ls e) ops ls"

text \<open>
  The type invariant of the store: a key in the posts namespace holds posts data, a key
  in the profile namespace holds a profile (a corrupt entry is allowed anywhere).
\<close>

definition kind_ok :: "string \<Rightarrow> cache_data \<Rightarrow> bool" where
  "kind_ok k d =
     (if startsWith k (getKey ''posts_'') then (case d of CPosts _ \<Rightarrow> True | _ \<Rightarrow> False)
      else if startsWith k (getKey ''profile_'') then (case d of CProfile _ \<Rightarrow> True | _ \<Rightarrow> False)
      else True)"

definition cache_wf :: "storage \<Rightarrow> bool" where
  "cache_wf ls =
     list_all (\<lambda>(k, v). case v of Stored it \<Rightarrow> kind_ok k (data it) | Corrupt \<Rightarrow> True) (entries ls)"

definition example_thread :: "uri \<Rightarrow> thread_item" where
  "example_thread u = ThreadItem (example_item u ''did:me'' None 0) [] True"

definition empty_storage :: storage where
  "empty_storage = \<lparr>entries = [], writable = True\<rparr>"

subsection \<open>Store lemmas\<close>

lemma getItem_removeItem [store_simps]:
  "getItem (removeItem ls k) k' = (if k' = k then None else getItem ls k')"
  by (simp add: getItem_def removeItem_def store_simps)

lemma writable_removeItem [simp]: "writable (removeItem ls k) = writable ls"
  by (simp add: removeItem_def)

lemma getItem_cache_set [store_simps]:
  "getItem (cache_set ls now key d ttl) k =
     (if writable ls \<and> k = getKey key
      then Some (Stored \<lparr>data = d, timestamp = now, expiry = ttl_or_default ttl\<rparr>)
      else getItem ls k)"
  by (simp add: cache_set_def setItem_def getItem_def store_simps)

lemma writable_cache_set [simp]: "writable (cache_set ls now key d ttl) = writable ls"
  by (simp add: cache_set_def setItem_def)

lemma getItem_cache_delete [store_simps]:
  "getItem (cache_delete ls key) k = (if k = getKey key then None else getItem ls k)"
  by (simp add: cache_delete_def store_simps)

lemma writable_cache_delete [simp]: "writable (cache_delete ls key) = writable ls"
  by (simp add: cache_delete_def)

lemma getKey_inj [simp]: "getKey a = getKey b \<longleftrightarrow> a = b"
  by (simp add: getKey_def)

lemma getKey_startsWith [simp]: "startsWith (getKey k) CACHE_PREFIX"
  by (simp add: getKey_def)

lemma not_prefixed_not_getKey [simp]: "\<not> startsWith k CACHE_PREFIX \<Longrightarrow> k \<noteq> getKey key"
  by auto

lemma posts_profile_keys_disjoint [simp]:
  "posts_key h \<noteq> profile_key h'" "profile_key h' \<noteq> posts_key h"
  by (simp_all add: posts_key_def profile_key_def)

lemma posts_key_inj [simp]: "posts_key a = posts_key b \<longleftrightarrow> a = b"
  by (simp add: posts_key_def)

lemma profile_key_inj [simp]: "profile_key a = profile_key b \<longleftrightarrow> a = b"
  by (simp add: profile_key_def)

lemma ttl_constants [simp]:
  "0 < POSTS_TTL" "0 < PROFILE_TTL" "0 < DEFAULT_TTL"
  "POSTS_TTL \<noteq> 0" "PROFILE_TTL \<noteq> 0" "DEFAULT_TTL \<noteq> 0"
  "0 \<le> POSTS_TTL" "0 \<le> PROFILE_TTL" "0 \<le> DEFAULT_TTL"
  by (simp_all add: POSTS_TTL_def PROFILE_TTL_def DEFAULT_TTL_def)

lemma getItem_fold_clear:
  "getItem (fold clear_step ks ls) k =
     (if startsWith k CACHE_PREFIX \<and> k \<in> set ks then None else getItem ls k)"
  by (induction ks arbitrary: ls) (auto simp: clear_step_def store_simps)

lemma getItem_cache_clear_unprefixed:
  "\<not> startsWith k CACHE_PREFIX \<Longrightarrow> getItem (cache_clear ls) k = getItem ls k"
  by (simp add: cache_clear_def getItem_fold_clear)

subsection \<open>Reads after writes\<close>

lemma cache_get_after_set:
  assumes "writable ls" and "now' \<le> now + ttl_or_default ttl"
  shows "cache_get (cache_set ls now k d ttl) now' k = (Some d, cache_set ls now k d ttl)"
  using assms by (simp add: cache_get_def store_simps isExpired_def)

lemma cache_get_writable [simp]: "writable (snd (cache_get ls now k)) = writable ls"
  by (simp add: cache_get_def split: option.split stored.split)

lemma cache_get_Some_unchanged:
  "fst (cache_get ls now k) = Some d \<Longrightarrow> cache_get ls now k = (Some d, ls)"
  by (auto simp: cache_get_def split: option.splits stored.splits if_splits)

lemma cache_get_cong:
  "getItem ls (getKey k) = getItem ls' (getKey k) \<Longrightarrow>
     fst (cache_get ls now k) = fst (cache_get ls' now k)"
  by (simp add: cache_get_def split: option.split stored.split)

lemma getItem_cache_get_other [store_simps]:
  "k \<noteq> getKey key \<Longrightarrow> getItem (snd (cache_get ls now key)) k = getItem ls k"
  by (simp add: cache_get_def store_simps split: option.split stored.split)

lemma snd_getPosts: "snd (getPosts ls now h) = snd (cache_get ls now (posts_key h))"
  by (simp add: getPosts_def split: prod.split option.split cache_data.split)

lemma snd_getProfile: "snd (getProfile_cached ls now h) = snd (cache_get ls now (profile_key h))"
  by (simp add: getProfile_cached_def split: prod.split option.split cache_data.split)

lemma fst_getPosts:
  "fst (getPosts ls now h) =
     (case fst (cache_get ls now (posts_key h)) of Some (CPosts d) \<Rightarrow> Some d | _ \<Rightarrow> None)"
  by (simp add: getPosts_def split: prod.split option.split cache_data.split)

lemma fst_getProfile:
  "fst (getProfile_cached ls now h) =
     (case fst (cache_get ls now (profile_key h)) of Some (CProfile p) \<Rightarrow> Some p | _ \<Rightarrow> None)"
  by (simp add: getProfile_cached_def split: prod.split option.split cache_data.split)

lemma getPosts_writable [simp]: "writable (snd (getPosts ls now h)) = writable ls"
  by (simp add: snd_getPosts)

lemma getPosts_Some_unchanged:
  assumes "fst (getPosts ls now h) = Some ex"
  shows "getPosts ls now h = (Some ex, ls)"
proof -
  obtain r ls' where c: "cache_get ls now (posts_key h) = (r, ls')" by fastforce
  with assms have "r = Some (CPosts ex)"
    by (auto simp: getPosts_def split: option.splits cache_data.splits)
  with c have "cache_get ls now (posts_key h) = (Some (CPosts ex), ls)"
    using cache_get_Some_unchanged [of ls now "posts_key h"] by simp
  then show ?thesis by (simp add: getPosts_def)
qed

lemma getProfile_Some_unchanged:
  assumes "fst (getProfile_cached ls now h) = Some p"
  shows "getProfile_cached ls now h = (Some p, ls)"
proof -
  obtain r ls' where c: "cache_get ls now (profile_key h) = (r, ls')" by fastforce
  with assms have "r = Some (CProfile p)"
    by (auto simp: getProfile_cached_def split: option.splits cache_data.splits)
  with c have "cache_get ls now (profile_key h) = (Some (CProfile p), ls)"
    using cache_get_Some_unchanged [of ls now "profile_key h"] by simp
  then show ?thesis by (simp add: getProfile_cached_def)
qed

lemma getPosts_after_set:
  assumes "writable ls"
  shows "getPosts (cache_set ls now (posts_key h) (CPosts d) (Some POSTS_TTL)) now h
     = (Some d, cache_set ls now (posts_key h) (CPosts d) (Some POSTS_TTL))"
proof -
  have "cache_get (cache_set ls now (posts_key h) (CPosts d) (Some POSTS_TTL)) now (posts_key h)
      = (Some (CPosts d), cache_set ls now (posts_key h) (CPosts d) (Some POSTS_TTL))"
    using assms by (intro cache_get_after_set) simp_all
  then show ?thesis by (simp add: getPosts_def)
qed

lemma getItem_setPosts_other:
  assumes "k \<noteq> getKey (posts_key h)"
  shows "getItem (setPosts ls now h ps c i) k = getItem ls k"
proof -
  have "getItem (snd (getPosts ls now h)) k = getItem ls k"
    using assms by (simp add: snd_getPosts store_simps)
  then show ?thesis using assms
    by (auto simp: setPosts_def store_simps split: prod.split option.split)
qed

lemma getItem_appendPosts_other:
  assumes "k \<noteq> getKey (posts_key h)"
  shows "getItem (appendPosts ls now h ps c) k = getItem ls k"
proof -
  have "getItem (snd (getPosts ls now h)) k = getItem ls k"
    using assms by (simp add: snd_getPosts store_simps)
  then show ?thesis using assms
    by (auto simp: appendPosts_def Let_def store_simps split: prod.split option.split)
qed

lemma getItem_cache_step_unprefixed:
  assumes "\<not> startsWith k CACHE_PREFIX"
  shows "getItem (cache_step ls e) k = getItem ls k"
proof (cases e)
  case (Pair now op)
  with assms show ?thesis
    by (cases op) (simp_all add: getItem_setPosts_other getItem_appendPosts_other snd_getPosts
        snd_getProfile setProfile_def getItem_cache_clear_unprefixed store_simps)
qed

subsection \<open>Preservation of the type invariant\<close>

lemma list_all_update:
  "P (k, v) \<Longrightarrow> list_all P al \<Longrightarrow> list_all P (AList.update k v al)"
  by (induction al) auto

lemma list_all_delete: "list_all P al \<Longrightarrow> list_all P (AList.delete k al)"
  by (simp add: AList.delete_eq list_all_iff)

lemma cache_wf_cache_set:
  "cache_wf ls \<Longrightarrow> kind_ok (getKey key) d \<Longrightarrow> cache_wf (cache_set ls now key d ttl)"
  by (simp add: cache_wf_def cache_set_def setItem_def list_all_update)

lemma cache_wf_removeItem: "cache_wf ls \<Longrightarrow> cache_wf (removeItem ls k)"
  by (simp add: cache_wf_def removeItem_def list_all_delete)

lemma cache_wf_cache_delete: "cache_wf ls \<Longrightarrow> cache_wf (cache_delete ls key)"
  by (simp add: cache_delete_def cache_wf_removeItem)

lemma cache_wf_cache_get: "cache_wf ls \<Longrightarrow> cache_wf (snd (cache_get ls now key))"
  by (simp add: cache_get_def cache_wf_cache_delete split: option.split stored.split)

lemma cache_wf_clear: "cache_wf ls \<Longrightarrow> cache_wf (cache_clear ls)"
proof -
  have "cache_wf ls \<Longrightarrow> cache_wf (fold clear_step ks ls)" for ks
    by (induction ks arbitrary: ls) (simp_all add: clear_step_def cache_wf_removeItem)
  then show "cache_wf ls \<Longrightarrow> cache_wf (cache_clear ls)"
    by (simp add: cache_clear_def)
qed

lemma kind_ok_posts [simp]: "kind_ok (getKey (posts_key h)) (CPosts d)"
  by (simp add: kind_ok_def getKey_def posts_key_def startsWith_def)

lemma kind_ok_profile [simp]: "kind_ok (getKey (profile_key h)) (CProfile p)"
  by (simp add: kind_ok_def getKey_def profile_key_def startsWith_def CACHE_PREFIX_def)

lemma kind_ok_posts_key: "kind_ok (getKey (posts_key h)) d \<Longrightarrow> \<exists>x. d = CPosts x"
  by (auto simp: kind_ok_def getKey_def posts_key_def startsWith_def split: cache_data.splits)

lemma cache_wf_setPosts: "cache_wf ls \<Longrightarrow> cache_wf (setPosts ls now h ps c i)"
  using cache_wf_cache_get [of ls now "posts_key h"]
  by (auto simp: setPosts_def snd_getPosts [symmetric] cache_wf_cache_set
           split: prod.split option.split)

lemma cache_wf_appendPosts: "cache_wf ls \<Longrightarrow> cache_wf (appendPosts ls now h ps c)"
  using cache_wf_cache_get [of ls now "posts_key h"]
  by (auto simp: appendPosts_def Let_def snd_getPosts [symmetric] cache_wf_cache_set
           split: prod.split option.split)

lemma cache_wf_step: "cache_wf ls \<Longrightarrow> cache_wf (cache_step ls e)"
proof (cases e)
  case (Pair now op)
  assume "cache_wf ls"
  with Pair show ?thesis
    by (cases op) (simp_all add: cache_wf_setPosts cache_wf_appendPosts snd_getPosts snd_getProfile
        cache_wf_cache_get setProfile_def cache_wf_cache_set cache_wf_cache_delete cache_wf_clear)
qed

lemma example_thread_uri [simp]: "thread_uri (example_thread u) = u"
  by (simp add: example_thread_def thread_uri_def item_uri_def example_item_def example_post_def)

lemma writable_empty_storage [simp]: "writable empty_storage"
  by (simp add: empty_storage_def)

subsection \<open>Properties of the cache\<close>

text \<open>
  C7: TTL semantics. A value written to a writable store is read back by \<open>get\<close> exactly
  while \<open>now \<le> storedAt + ttl\<close>, the TTL being the given one or the 5-minute default
  when it is absent or zero.
\<close>

theorem cache_get_set:
  assumes "writable ls"
  shows "fst (cache_get (cache_set ls now k d ttl) now' k) =
           (if now' \<le> now + ttl_or_default ttl then Some d else None)"
  using assms by (simp add: cache_get_def store_simps isExpired_def)

theorem cache_get_set_witness:
  "fst (cache_get (cache_set empty_storage 0 ''k'' (CProfile (example_profile ''did:a'' None)) None) 1000 ''k'') = Some (CProfile (example_profile ''did:a'' None))
   \<and> fst (cache_get (cache_set empty_storage 0 ''k'' (CProfile (example_profile ''did:a'' None)) None) 300001 ''k'') = None"
  using cache_get_set [of empty_storage 0 "''k''" "CProfile (example_profile ''did:a'' None)" None]
  by (simp add: DEFAULT_TTL_def)

text \<open>
  C35: An expired read evicts. When the stored item has expired, \<open>get\<close> answers absent,
  removes the entry, and every later read of that key, at any time, is absent too.
\<close>

theorem cache_get_expired_evicts:
  assumes "getItem ls (getKey k) = Some (Stored it)" and "isExpired now it"
    and "cache_get ls now k = (r, ls')"
  shows "r = None \<and> getItem ls' (getKey k) = None \<and> fst (cache_get ls' t k) = None"
  using assms by (auto simp: cache_get_def store_simps)

theorem cache_get_expired_evicts_witness:
  "fst (cache_get (cache_set empty_storage 0 ''k'' (CProfile (example_profile ''did:a'' None)) (Some 10)) 20 ''k'') = None
   \<and> fst (cache_get (snd (cache_get (cache_set empty_storage 0 ''k'' (CProfile (example_profile ''did:a'' None)) (Some 10)) 20 ''k'')) 5 ''k'') = None"
proof -
  let ?ls = "cache_set empty_storage 0 ''k'' (CProfile (example_profile ''did:a'' None)) (Some 10)"
  let ?it = "\<lparr>data = CProfile (example_profile ''did:a'' None), timestamp = 0, expiry = 10\<rparr>"
  have "getItem ?ls (getKey ''k'') = Some (Stored ?it)" by (simp add: store_simps)
  moreover have "isExpired 20 ?it" by (simp add: isExpired_def)
  ultimately show ?thesis
    using cache_get_expired_evicts [of ?ls "''k''" ?it 20 "fst (cache_get ?ls 20 ''k'')"
        "snd (cache_get ?ls 20 ''k'')" 5]
    by simp
qed

text \<open>
  C36: \<open>clear\<close> removes exactly the entries of this cache's namespace: a key with the
  prefix \<open>bskyweb_cache_\<close> is gone afterwards, every other key keeps its value. The loop
  over a snapshot of the keys equals this filter.
\<close>

theorem cache_clear_spec:
  "getItem (cache_clear ls) k = (if startsWith k CACHE_PREFIX then None else getItem ls k)"
proof -
  have "getItem ls k \<noteq> None \<Longrightarrow> k \<in> set (storage_keys ls)"
    by (force simp: getItem_def storage_keys_def dest: map_of_SomeD)
  then show ?thesis
    by (cases "getItem ls k") (auto simp: cache_clear_def getItem_fold_clear)
qed

text \<open>
  The initial load replaces. \<open>setPosts\<close> with \<open>isInitial\<close> stores exactly the given
  page, cursor and handle, whatever was cached before.
\<close>

theorem setPosts_initial_replaces:
  assumes "writable ls"
  shows "fst (getPosts (setPosts ls now h posts c True) now h) =
           Some \<lparr>pc_posts = posts, pc_cursor = c, pc_handle = h\<rparr>"
  using assms by (simp add: setPosts_def getPosts_after_set)

theorem setPosts_initial_replaces_witness:
  "fst (getPosts (setPosts empty_storage 0 ''h'' [example_thread ''A''] (Some ''c'') True) 0 ''h'') =
     Some \<lparr>pc_posts = [example_thread ''A''], pc_cursor = Some ''c'', pc_handle = ''h''\<rparr>"
  using setPosts_initial_replaces [of empty_storage 0 "''h''" "[example_thread ''A'']" "Some ''c''"]
  by simp

text \<open>
  Later pages append. \<open>setPosts\<close> without \<open>isInitial\<close> stores the cached threads
  followed by the new page (no de-duplication), with the new cursor; with nothing cached
  it stores the page alone.
\<close>

theorem setPosts_page_appends:
  assumes "writable ls"
  shows "fst (getPosts (setPosts ls now h posts c False) now h) =
           Some \<lparr>pc_posts = (case fst (getPosts ls now h) of Some ex \<Rightarrow> pc_posts ex | None \<Rightarrow> []) @ posts,
                 pc_cursor = c, pc_handle = h\<rparr>"
proof (cases "getPosts ls now h")
  case (Pair r ls1)
  then have "writable ls1" using assms getPosts_writable [of ls now h] by simp
  with Pair show ?thesis
    by (cases r) (simp_all add: setPosts_def getPosts_after_set)
qed

theorem setPosts_page_appends_witness:
  "fst (getPosts (setPosts empty_storage 0 ''h'' [example_thread ''A''] None False) 0 ''h'') =
     Some \<lparr>pc_posts = [example_thread ''A''], pc_cursor = None, pc_handle = ''h''\<rparr>"
proof -
  have "fst (getPosts empty_storage 0 ''h'') = None"
    by (simp add: fst_getPosts cache_get_def getItem_def empty_storage_def)
  then show ?thesis
    using setPosts_page_appends [of empty_storage 0 "''h''" "[example_thread ''A'']" None] by simp
qed

text \<open>
  C8: \<open>appendPosts\<close> de-duplicates by URI. Given a cached page, the cache afterwards holds
  the cached threads followed by those new threads whose URI is not cached yet, with the
  new cursor; when no new URI remains the cached entry is left as it was.
\<close>

theorem appendPosts_merges_new:
  assumes "writable ls" and "fst (getPosts ls now h) = Some ex"
  shows "fst (getPosts (appendPosts ls now h new c) now h) =
    Some (let fresh = filter (\<lambda>t. thread_uri t \<notin> set (map thread_uri (pc_posts ex))) new
          in if fresh = [] then ex
             else \<lparr>pc_posts = pc_posts ex @ fresh, pc_cursor = c, pc_handle = h\<rparr>)"
proof -
  have g: "getPosts ls now h = (Some ex, ls)"
    using assms(2) by (rule getPosts_Some_unchanged)
  then show ?thesis
    using assms(1) by (simp add: appendPosts_def Let_def getPosts_after_set)
qed

theorem appendPosts_merges_new_witness:
  "fst (getPosts (appendPosts (setPosts empty_storage 0 ''h'' [example_thread ''A'', example_thread ''B''] None True)
       0 ''h'' [example_thread ''B'', example_thread ''C''] (Some ''c2'')) 0 ''h'') =
   Some \<lparr>pc_posts = [example_thread ''A'', example_thread ''B'', example_thread ''C''],
         pc_cursor = Some ''c2'', pc_handle = ''h''\<rparr>"
proof -
  let ?ls = "setPosts empty_storage 0 ''h'' [example_thread ''A'', example_thread ''B''] None True"
  let ?ex = "\<lparr>pc_posts = [example_thread ''A'', example_thread ''B''], pc_cursor = None, pc_handle = ''h''\<rparr>"
  have "fst (getPosts ?ls 0 ''h'') = Some ?ex"
    by (simp add: setPosts_def getPosts_after_set)
  moreover have "writable ?ls" by (simp add: setPosts_def)
  ultimately show ?thesis
    using appendPosts_merges_new [of ?ls 0 "''h''" ?ex "[example_thread ''B'', example_thread ''C'']" "Some ''c2''"]
    by simp
qed

text \<open>
  No write without new URIs. When every incoming thread's URI is already cached,
  \<open>appendPosts\<close> leaves the whole store unchanged, so the entry's timestamp (and with it
  its TTL) is not reset.
\<close>

theorem appendPosts_no_new_no_write:
  assumes "fst (getPosts ls now h) = Some ex"
    and "set (map thread_uri new) \<subseteq> set (map thread_uri (pc_posts ex))"
  shows "appendPosts ls now h new c = ls"
proof -
  have "getPosts ls now h = (Some ex, ls)"
    using assms(1) by (rule getPosts_Some_unchanged)
  moreover have "filter (\<lambda>t. thread_uri t \<notin> set (map thread_uri (pc_posts ex))) new = []"
    using assms(2) by (auto simp: filter_empty_conv)
  ultimately show ?thesis by (simp add: appendPosts_def)
qed

theorem appendPosts_no_new_no_write_witness:
  "appendPosts (setPosts empty_storage 0 ''h'' [example_thread ''A'', example_thread ''B''] None True)
       5 ''h'' [example_thread ''B'', example_thread ''A''] (Some ''c2'')
   = setPosts empty_storage 0 ''h'' [example_thread ''A'', example_thread ''B''] None True"
proof -
  let ?ls = "setPosts empty_storage 0 ''h'' [example_thread ''A'', example_thread ''B''] None True"
  let ?ex = "\<lparr>pc_posts = [example_thread ''A'', example_thread ''B''], pc_cursor = None, pc_handle = ''h''\<rparr>"
  have "fst (getPosts ?ls 5 ''h'') = Some ?ex"
    by (simp add: setPosts_def fst_getPosts cache_get_def store_simps isExpired_def POSTS_TTL_def)
  then show ?thesis
    using appendPosts_no_new_no_write [of ?ls 5 "''h''" ?ex "[example_thread ''B'', example_thread ''A'']" "Some ''c2''"]
    by simp
qed

text \<open>
  Writing posts never changes what a profile read returns: the posts and profile
  namespaces of the keys are disjoint.
\<close>

theorem setPosts_keeps_profiles:
  "fst (getProfile_cached (setPosts ls now h ps c i) t h') = fst (getProfile_cached ls t h')"
proof -
  have "fst (cache_get (setPosts ls now h ps c i) t (profile_key h')) = fst (cache_get ls t (profile_key h'))"
    by (rule cache_get_cong) (simp add: getItem_setPosts_other)
  then show ?thesis by (simp only: fst_getProfile)
qed

text \<open>
  C37: Third-party keys are never touched: along any run of cache operations, a key
  without the \<open>bskyweb_cache_\<close> prefix keeps its value.
\<close>

theorem cache_run_third_party_keys:
  assumes "\<not> startsWith k CACHE_PREFIX"
  shows "getItem (cache_run ls ops) k = getItem ls k"
  unfolding cache_run_def
  by (induction ops arbitrary: ls) (simp_all add: getItem_cache_step_unprefixed [OF assms])

theorem cache_run_third_party_keys_witness:
  "getItem (cache_run \<lparr>entries = [(''theme'', Corrupt)], writable = True\<rparr>
      [(0, SetPosts ''h'' [] None True), (1, Clear)]) ''theme'' = Some Corrupt"
  using cache_run_third_party_keys [of "''theme''" "\<lparr>entries = [(''theme'', Corrupt)], writable = True\<rparr>"
      "[(0, SetPosts ''h'' [] None True), (1, Clear)]"]
  by (simp add: startsWith_def CACHE_PREFIX_def getItem_def)

text \<open>
  C38: Type invariant. Every run of cache operations from a well-typed store leaves a
  well-typed store: posts keys hold posts data and profile keys hold profiles.
\<close>

theorem cache_run_wf: "cache_wf ls \<Longrightarrow> cache_wf (cache_run ls ops)"
  unfolding cache_run_def
  by (induction ops arbitrary: ls) (simp_all add: cache_wf_step)

theorem cache_run_wf_witness:
  "cache_wf (cache_run empty_storage [(0, SetPosts ''h'' [] None True), (1, SetProfile ''h'' (example_profile ''did:a'' None))])"
proof -
  have "cache_wf empty_storage" by (simp add: cache_wf_def empty_storage_def)
  then show ?thesis by (rule cache_run_wf)
qed

text \<open>
  In a well-typed store the posts read loses nothing: \<open>getPosts\<close> answers a value
  exactly when the generic \<open>get\<close> of the posts key does.
\<close>

theorem cache_wf_getPosts_total:
  assumes "cache_wf ls"
  shows "fst (cache_get ls now (posts_key h)) = map_option CPosts (fst (getPosts ls now h))"
proof (cases "getItem ls (getKey (posts_key h))")
  case (Some v)
  then have "(getKey (posts_key h), v) \<in> set (entries ls)"
    by (simp add: getItem_def map_of_SomeD)
  with assms have "case v of Stored it \<Rightarrow> kind_ok (getKey (posts_key h)) (data it) | Corrupt \<Rightarrow> True"
    by (auto simp: cache_wf_def list_all_iff)
  with Some show ?thesis
    by (auto simp: fst_getPosts cache_get_def dest: kind_ok_posts_key split: stored.splits)
qed (simp add: fst_getPosts cache_get_def)

theorem cache_wf_getPosts_total_witness:
  "fst (cache_get empty_storage 0 (posts_key ''h'')) = map_option CPosts (fst (getPosts empty_storage 0 ''h''))"
proof -
  have "cache_wf empty_storage" by (simp add: cache_wf_def empty_storage_def)
  then show ?thesis by (rule cache_wf_getPosts_total)
qed

end
