(* ===== verification/Avatars.thy ===== *)
theory Avatars
  imports Cache
begin

text \<open>
  The avatar enricher of \<open>src/utils/bluesky.ts\<close>: \<open>fetchProfileData\<close> (cache first,
  then the profile endpoint) and \<open>enhancePostsWithAvatars\<close> with its two inner
  functions \<open>collectDidsFromThread\<close> and \<open>enhanceThreadWithAvatars\<close>. The in-place
  mutation \<open>post.author.avatar = ...\<close> becomes a functional update of the node; the
  cache reads of the second traversal may evict, so the store is threaded through it.
\<close>

definition EMBED_RECORD_VIEW :: string where
  "EMBED_RECORD_VIEW = ''app.bsky.embed.record#view''"

definition EMBED_RECORD_WITH_MEDIA_VIEW :: string where
  "EMBED_RECORD_WITH_MEDIA_VIEW = ''app.bsky.embed.recordWithMedia#view''"

text \<open>
  The one embedded author the code looks at: \<open>embed.record.author\<close> of a quote
  (\<open>record#view\<close>), \<open>embed.record.record.author\<close> of a quote with media.
\<close>

definition embedded_author :: "embed option \<Rightarrow> author option" where
  "embedded_author eo =
     (case eo of None \<Rightarrow> None
      | Some e \<Rightarrow>
          (case embed_record e of None \<Rightarrow> None
           | Some r \<Rightarrow>
               if embed_type e = EMBED_RECORD_VIEW then er_author r
               else if embed_type e = EMBED_RECORD_WITH_MEDIA_VIEW then
                 (case er_record r of None \<Rightarrow> None | Some r' \<Rightarrow> er_author r')
               else None))"

fun er_map_author :: "(author \<Rightarrow> author) \<Rightarrow> embedded_record \<Rightarrow> embedded_record" where
  "er_map_author g (EmbeddedRecord t u c a v i cr r) = EmbeddedRecord t u c (map_option g a) v i cr r"

text \<open>
  The same place, updated: the code writes \<open>post.embed.record.author.avatar\<close> of a
  quote and \<open>post.embed.record.record.author.avatar\<close> of a quote with media.
\<close>

definition map_embedded_author :: "(author \<Rightarrow> author) \<Rightarrow> embed option \<Rightarrow> embed option" where
  "map_embedded_author g eo =
     (case eo of None \<Rightarrow> None
      | Some e \<Rightarrow>
          (case embed_record e of None \<Rightarrow> Some e
           | Some r \<Rightarrow>
               if embed_type e = EMBED_RECORD_VIEW then
                 Some (e\<lparr>embed_record := Some (er_map_author g r)\<rparr>)
               else if embed_type e = EMBED_RECORD_WITH_MEDIA_VIEW then
                 (case er_record r of None \<Rightarrow> Some e
                  | Some r' \<Rightarrow>
                      Some (e\<lparr>embed_record := Some (EmbeddedRecord (er_type r) (er_uri r) (er_cid r)
                        (er_author r) (er_value r) (er_indexedAt r) (er_createdAt r)
                        (Some (er_map_author g r')))\<rparr>))
               else Some e))"

subsection \<open>Collecting the authors\<close>

fun collectDidsFromThread :: "thread_item \<Rightarrow> did list \<Rightarrow> did list" where
  "collectDidsFromThread (ThreadItem x cs r) uniqueDids =
     fold collectDidsFromThread cs
       (let ds = set_add (did (post_author (post x))) uniqueDids in
        case embedded_author (post_embed (post x)) of
          None \<Rightarrow> ds
        | Some a \<Rightarrow> set_add (did a) ds)"

definition collectDids :: "thread_item list \<Rightarrow> did list" where
  "collectDids threads = fold collectDidsFromThread threads []"

subsection \<open>Fetching the profiles\<close>

definition fetchProfileData :: "api \<Rightarrow> time \<Rightarrow> storage \<Rightarrow> did \<Rightarrow> profile_data option \<times> storage" where
  "fetchProfileData a now ls d =
     (case getProfile_cached ls now d of
        (Some p, ls1) \<Rightarrow> (Some p, ls1)
      | (None, ls1) \<Rightarrow>
          (case getProfile a d of
             HOk p \<Rightarrow> (Some p, setProfile ls1 now d p)
           | _ \<Rightarrow> (None, ls1)))"

text \<open>
  \<open>Promise.all(Array.from(uniqueDids).map(fetchProfileData))\<close>. Each call runs
  synchronously up to its first \<open>await\<close>: the cache read, and on a miss the request.
  So the reads happen first, in the order of the set, and the responses then complete
  in an order the network chooses; each completion writes its profile.
  \<open>fetchProfiles\<close> is the sequential reading, one call after the other; the theorem
  \<open>fetchProfiles_interleaving\<close> shows that every completion order of the concurrent
  run leaves the same store.
\<close>

definition fetchProfiles :: "api \<Rightarrow> time \<Rightarrow> storage \<Rightarrow> did list \<Rightarrow> storage" where
  "fetchProfiles a now ls dids = fold (\<lambda>d ls. snd (fetchProfileData a now ls d)) dids ls"

definition start_lookup :: "time \<Rightarrow> did \<Rightarrow> did list \<times> storage \<Rightarrow> did list \<times> storage" where
  "start_lookup now d st =
     (case getProfile_cached (snd st) now d of
        (Some _, ls1) \<Rightarrow> (fst st, ls1)
      | (None, ls1) \<Rightarrow> (fst st @ [d], ls1))"

definition start_lookups :: "time \<Rightarrow> storage \<Rightarrow> did list \<Rightarrow> did list \<times> storage" where
  "start_lookups now ls dids = fold (start_lookup now) dids ([], ls)"

definition finish_lookup :: "api \<Rightarrow> time \<Rightarrow> did \<Rightarrow> storage \<Rightarrow> storage" where
  "finish_lookup a now d ls =
     (case getProfile a d of HOk p \<Rightarrow> setProfile ls now d p | _ \<Rightarrow> ls)"

definition fetchProfiles_concurrent :: "api \<Rightarrow> time \<Rightarrow> storage \<Rightarrow> did list \<Rightarrow> did list \<Rightarrow> storage" where
  "fetchProfiles_concurrent a now ls dids completion =
     fold (finish_lookup a now) completion (snd (start_lookups now ls dids))"

subsection \<open>Attaching the avatars\<close>

text \<open>
  \<open>cache.getProfile(did)\<close> followed by \<open>profile && profile.avatar\<close>: the avatar to
  write, if any, and the store after the read.
\<close>

definition lookup_avatar :: "time \<Rightarrow> storage \<Rightarrow> did \<Rightarrow> string option \<times> storage" where
  "lookup_avatar now ls d =
     (case getProfile_cached ls now d of
        (Some p, ls1) \<Rightarrow> (if js_truthy (profile_avatar p) then profile_avatar p else None, ls1)
      | (None, ls1) \<Rightarrow> (None, ls1))"

definition set_author_avatar :: "string option \<Rightarrow> post \<Rightarrow> post" where
  "set_author_avatar av p =
     (case av of None \<Rightarrow> p | Some s \<Rightarrow> p\<lparr>post_author := (post_author p)\<lparr>avatar := Some s\<rparr>\<rparr>)"

definition enhance_embed :: "time \<Rightarrow> storage \<Rightarrow> embed option \<Rightarrow> embed option \<times> storage" where
  "enhance_embed now ls eo =
     (case embedded_author eo of
        None \<Rightarrow> (eo, ls)
      | Some a \<Rightarrow>
          (case lookup_avatar now ls (did a) of
             (None, ls1) \<Rightarrow> (eo, ls1)
           | (Some s, ls1) \<Rightarrow> (map_embedded_author (\<lambda>x. x\<lparr>avatar := Some s\<rparr>) eo, ls1)))"

fun enhanceThreadWithAvatars :: "time \<Rightarrow> storage \<Rightarrow> thread_item \<Rightarrow> thread_item \<times> storage"
and enhance_children :: "time \<Rightarrow> storage \<Rightarrow> thread_item list \<Rightarrow> thread_item list \<times> storage" where
  "enhanceThreadWithAvatars now ls (ThreadItem x cs r) =
     (let (av, ls1) = lookup_avatar now ls (did (post_author (post x)));
          p1 = set_author_avatar av (post x);
          (e, ls2) = enhance_embed now ls1 (post_embed p1);
          (cs', ls3) = enhance_children now ls2 cs
      in (ThreadItem (x\<lparr>post := p1\<lparr>post_embed := e\<rparr>\<rparr>) cs' r, ls3))"
| "enhance_children now ls [] = ([], ls)"
| "enhance_children now ls (t # ts) =
     (let (t', ls1) = enhanceThreadWithAvatars now ls t;
          (ts', ls2) = enhance_children now ls1 ts
      in (t' # ts', ls2))"

definition enhancePostsWithAvatars ::
  "api \<Rightarrow> time \<Rightarrow> storage \<Rightarrow> thread_item list \<Rightarrow> thread_item list \<times> storage" where
  "enhancePostsWithAvatars a now ls threads =
     (let uniqueDids = collectDids threads;
          ls1 = fetchProfiles a now ls uniqueDids
      in enhance_children now ls1 threads)"

subsection \<open>The specification of the enricher\<close>

text \<open>
  Every author reference of a thread: the post's author and the embedded author the code
  considers, at every node. \<open>map_authors g\<close> rewrites all of them with \<open>g\<close>; the
  specification of the enricher (spec 4.5) is \<open>map_authors (resolved_avatar f)\<close> for the
  avatars \<open>f\<close> the profile lookups resolve.
\<close>

fun map_authors :: "(author \<Rightarrow> author) \<Rightarrow> thread_item \<Rightarrow> thread_item" where
  "map_authors g (ThreadItem x cs r) =
     ThreadItem (x\<lparr>post := (post x)\<lparr>post_author := g (post_author (post x)),
                   post_embed := map_embedded_author g (post_embed (post x))\<rparr>\<rparr>)
       (map (map_authors g) cs) r"

fun thread_authors :: "thread_item \<Rightarrow> author list" where
  "thread_authors (ThreadItem x cs r) =
     post_author (post x) # (case embedded_author (post_embed (post x)) of None \<Rightarrow> [] | Some a \<Rightarrow> [a])
       @ concat (map thread_authors cs)"

definition resolved_avatar :: "(did \<Rightarrow> string option) \<Rightarrow> author \<Rightarrow> author" where
  "resolved_avatar f a = (case f (did a) of None \<Rightarrow> a | Some s \<Rightarrow> a\<lparr>avatar := Some s\<rparr>)"

definition without_avatar :: "author \<Rightarrow> author" where
  "without_avatar a = a\<lparr>avatar := None\<rparr>"

definition fetched_avatar :: "api \<Rightarrow> time \<Rightarrow> storage \<Rightarrow> did \<Rightarrow> string option" where
  "fetched_avatar a now ls d =
     (case fst (fetchProfileData a now ls d) of
        Some p \<Rightarrow> if js_truthy (profile_avatar p) then profile_avatar p else None
      | None \<Rightarrow> None)"

text \<open>
  The store key of a profile, and the condition under which a read of it leaves the store
  as it is (the entry, if any, has not expired).
\<close>

abbreviation pkey :: "did \<Rightarrow> string" where
  "pkey d \<equiv> getKey (profile_key d)"

definition fresh_entry :: "time \<Rightarrow> stored option \<Rightarrow> bool" where
  "fresh_entry now v = (case v of Some (Stored it) \<Rightarrow> \<not> isExpired now it | _ \<Rightarrow> True)"

text \<open>A profile service that knows every account, with an avatar.\<close>

definition avatar_api :: api where
  "avatar_api = \<lparr>resolveHandle = (\<lambda>_. HStatus 404), getAuthorFeed = (\<lambda>_ _ _. HStatus 404),
     getPostThread = (\<lambda>_. HStatus 404),
     getProfile = (\<lambda>d. HOk (example_profile d (Some ''https://cdn.example/avatar.jpg'')))\<rparr>"

definition readonly_storage :: storage where
  "readonly_storage = \<lparr>entries = [], writable = False\<rparr>"

subsection \<open>Lemmas on the author slots\<close>

lemma embed_types_differ [simp]: "EMBED_RECORD_WITH_MEDIA_VIEW \<noteq> EMBED_RECORD_VIEW"
  by (simp add: EMBED_RECORD_WITH_MEDIA_VIEW_def EMBED_RECORD_VIEW_def)

lemma er_author_er_map_author [simp]: "er_author (er_map_author g r) = map_option g (er_author r)"
  by (cases r) simp

lemma er_map_author_comp [simp]: "er_map_author g (er_map_author h r) = er_map_author (\<lambda>a. g (h a)) r"
  by (cases r) (simp add: option.map_comp comp_def)

lemma er_map_author_eq_iff [simp]:
  "er_map_author g r = er_map_author h r \<longleftrightarrow> map_option g (er_author r) = map_option h (er_author r)"
  by (cases r) simp

lemma embed_record_update_eq [simp]:
  "e\<lparr>embed_record := a\<rparr> = e\<lparr>embed_record := b\<rparr> \<longleftrightarrow> a = b"
  by (cases e) simp

lemma embedded_author_map [simp]:
  "embedded_author (map_embedded_author g eo) = map_option g (embedded_author eo)"
  by (simp add: embedded_author_def map_embedded_author_def
      split: option.split embedded_record.split)

lemma map_embedded_author_comp [simp]:
  "map_embedded_author g (map_embedded_author h eo) = map_embedded_author (\<lambda>a. g (h a)) eo"
  by (simp add: map_embedded_author_def split: option.split)

lemma map_embedded_author_cong:
  "(\<And>a. embedded_author eo = Some a \<Longrightarrow> g a = h a) \<Longrightarrow>
     map_embedded_author g eo = map_embedded_author h eo"
  by (auto simp: embedded_author_def map_embedded_author_def
      intro!: map_option_cong_Some split: option.split)

lemma embed_record_same [simp]: "embed_record e = Some r \<Longrightarrow> e\<lparr>embed_record := Some r\<rparr> = e"
  by (cases e) simp

lemma embedded_record_rebuild [simp]:
  "er_record r = Some r' \<Longrightarrow>
     EmbeddedRecord (er_type r) (er_uri r) (er_cid r) (er_author r) (er_value r) (er_indexedAt r)
       (er_createdAt r) (Some r') = r"
  by (cases r) simp

lemma er_map_author_ident [simp]: "er_map_author (\<lambda>a. a) r = r"
  by (cases r) (simp add: option.map_ident)

lemma map_embedded_author_ident: "map_embedded_author (\<lambda>a. a) eo = eo"
  by (simp add: map_embedded_author_def split: option.split)

lemma map_embedded_author_id:
  "(\<And>a. embedded_author eo = Some a \<Longrightarrow> g a = a) \<Longrightarrow> map_embedded_author g eo = eo"
  using map_embedded_author_cong [of eo g "\<lambda>a. a"] by (simp add: map_embedded_author_ident)

lemma map_authors_comp [simp]: "map_authors g (map_authors h t) = map_authors (\<lambda>a. g (h a)) t"
  by (induction h t rule: map_authors.induct) simp

lemma map_authors_cong:
  "(\<And>a. a \<in> set (thread_authors t) \<Longrightarrow> g a = h a) \<Longrightarrow> map_authors g t = map_authors h t"
proof (induction h t rule: map_authors.induct)
  case (1 h x cs r)
  have "map_embedded_author g (post_embed (post x)) = map_embedded_author h (post_embed (post x))"
    by (rule map_embedded_author_cong) (simp add: 1(2))
  moreover have "map_authors g c = map_authors h c" if "c \<in> set cs" for c
    by (rule 1(1) [OF that]) (use 1(2) that in auto)
  ultimately show ?case by (simp add: 1(2))
qed

lemma thread_authors_map_authors [simp]:
  "thread_authors (map_authors g t) = map g (thread_authors t)"
  by (induction g t rule: map_authors.induct)
    (simp add: map_concat comp_def cong: map_cong split: option.split)

subsection \<open>Lemmas on the collected identifiers\<close>

lemma set_collectDidsFromThread:
  "set (collectDidsFromThread t acc) = set acc \<union> did ` set (thread_authors t)"
proof (induction t acc rule: collectDidsFromThread.induct)
  case (1 x cs r uniqueDids)
  have "set (fold collectDidsFromThread cs' acc) = set acc \<union> did ` \<Union> (set ` thread_authors ` set cs')"
    if "set cs' \<subseteq> set cs" for cs' acc
    using that by (induction cs' arbitrary: acc) (auto simp: 1)
  then show ?case by (auto simp: Let_def split: option.split)
qed

lemma distinct_collectDidsFromThread: "distinct acc \<Longrightarrow> distinct (collectDidsFromThread t acc)"
proof (induction t acc rule: collectDidsFromThread.induct)
  case (1 x cs r uniqueDids)
  have "distinct (fold collectDidsFromThread cs' acc)" if "set cs' \<subseteq> set cs" "distinct acc" for cs' acc
    using that by (induction cs' arbitrary: acc) (auto simp: 1)
  with 1 show ?case by (simp add: Let_def split: option.split)
qed

subsection \<open>Lemmas on the profile store\<close>


subsection \<open>Operations local to one key\<close>

text \<open>
  An operation of a family \<open>f d\<close> is local to the key \<open>kf d\<close> when it keeps
  writability, leaves every other key alone and computes the new value at its key from
  the old one (and writability). A run of such operations over distinct keys leaves at
  each key what the operation of that key alone leaves there, whatever the order.
\<close>

lemma fold_local:
  assumes "distinct (map kf ds)"
    and wr: "\<And>d ls. d \<in> set ds \<Longrightarrow> writable (f d ls) = writable ls"
    and oth: "\<And>d ls k. d \<in> set ds \<Longrightarrow> k \<noteq> kf d \<Longrightarrow> getItem (f d ls) k = getItem ls k"
    and cg: "\<And>d ls ls'. d \<in> set ds \<Longrightarrow> getItem ls (kf d) = getItem ls' (kf d) \<Longrightarrow>
               writable ls = writable ls' \<Longrightarrow> getItem (f d ls) (kf d) = getItem (f d ls') (kf d)"
  shows "(\<forall>d\<in>set ds. getItem (fold f ds ls) (kf d) = getItem (f d ls) (kf d))
       \<and> (\<forall>k. k \<notin> kf ` set ds \<longrightarrow> getItem (fold f ds ls) k = getItem ls k)
       \<and> writable (fold f ds ls) = writable ls"
  using assms
proof (induction ds arbitrary: ls)
  case (Cons d ds)
  let ?ls1 = "f d ls"
  have IH: "(\<forall>d'\<in>set ds. getItem (fold f ds ?ls1) (kf d') = getItem (f d' ?ls1) (kf d'))
       \<and> (\<forall>k. k \<notin> kf ` set ds \<longrightarrow> getItem (fold f ds ?ls1) k = getItem ?ls1 k)
       \<and> writable (fold f ds ?ls1) = writable ?ls1"
  proof (rule Cons.IH)
    show "distinct (map kf ds)" using Cons.prems(1) by simp
    show "writable (f d' ls') = writable ls'" if "d' \<in> set ds" for d' ls'
      using that Cons.prems(2) by simp
    show "getItem (f d' ls') k = getItem ls' k" if "d' \<in> set ds" "k \<noteq> kf d'" for d' ls' k
      using that Cons.prems(3) by simp
    show "getItem (f d' ls') (kf d') = getItem (f d' ls'') (kf d')"
      if "d' \<in> set ds" "getItem ls' (kf d') = getItem ls'' (kf d')" "writable ls' = writable ls''"
      for d' ls' ls''
      using that by (intro Cons.prems(4)) simp_all
  qed
  have "getItem (f d' ?ls1) (kf d') = getItem (f d' ls) (kf d')" if "d' \<in> set ds" for d'
  proof (rule Cons.prems(4))
    from that Cons.prems(1) have "kf d' \<noteq> kf d" by (metis distinct.simps(2) image_eqI list.set_map list.simps(9))
    then show "getItem ?ls1 (kf d') = getItem ls (kf d')" using Cons.prems(3) by simp
  qed (use that Cons.prems(2) in auto)
  moreover have "kf d \<notin> kf ` set ds" using Cons.prems(1) by auto
  moreover have "getItem ?ls1 k = getItem ls k" if "k \<notin> kf ` set (d # ds)" for k
    using that Cons.prems(3) by simp
  ultimately show ?case using IH Cons.prems(2) by simp
qed simp


lemma pkey_inj: "pkey d = pkey d' \<longleftrightarrow> d = d'"
  by simp

lemma distinct_map_pkey: "distinct (map pkey ds) \<longleftrightarrow> distinct ds"
  by (simp add: distinct_map inj_on_def)

lemma read_writable [simp]: "writable (snd (getProfile_cached ls now d)) = writable ls"
  by (simp add: snd_getProfile)

lemma read_other:
  "k \<noteq> pkey d \<Longrightarrow> getItem (snd (getProfile_cached ls now d)) k = getItem ls k"
  by (simp add: snd_getProfile getItem_cache_get_other)

lemma read_at:
  "getItem (snd (getProfile_cached ls now d)) (pkey d) =
     (case getItem ls (pkey d) of
        Some (Stored it) \<Rightarrow> if isExpired now it then None else Some (Stored it)
      | v \<Rightarrow> v)"
  by (simp add: snd_getProfile cache_get_def store_simps split: option.split stored.split)

lemma read_fst_cong:
  "getItem ls (pkey d) = getItem ls' (pkey d) \<Longrightarrow>
     fst (getProfile_cached ls now d) = fst (getProfile_cached ls' now d)"
  by (simp add: fst_getProfile cache_get_cong [of ls _ ls'])

lemma getItem_finish_lookup:
  "getItem (finish_lookup a now d ls) k =
     (case getProfile a d of
        HOk p \<Rightarrow> if writable ls \<and> k = pkey d
                 then Some (Stored \<lparr>data = CProfile p, timestamp = now, expiry = PROFILE_TTL\<rparr>)
                 else getItem ls k
      | _ \<Rightarrow> getItem ls k)"
  by (auto simp add: finish_lookup_def setProfile_def store_simps split: http.split)

lemma finish_lookup_writable [simp]: "writable (finish_lookup a now d ls) = writable ls"
  by (simp add: finish_lookup_def setProfile_def split: http.split)

lemma snd_fetchProfileData:
  "snd (fetchProfileData a now ls d) =
     (if fst (getProfile_cached ls now d) = None
      then finish_lookup a now d (snd (getProfile_cached ls now d))
      else snd (getProfile_cached ls now d))"
  by (simp add: fetchProfileData_def finish_lookup_def split: prod.split option.split http.split)

lemma fst_fetchProfileData:
  "fst (fetchProfileData a now ls d) =
     (case fst (getProfile_cached ls now d) of
        Some p \<Rightarrow> Some p
      | None \<Rightarrow> (case getProfile a d of HOk p \<Rightarrow> Some p | _ \<Rightarrow> None))"
  by (simp add: fetchProfileData_def split: prod.split option.split http.split)

lemma fetch_writable [simp]: "writable (snd (fetchProfileData a now ls d)) = writable ls"
  by (simp add: snd_fetchProfileData)

lemma fetch_other:
  "k \<noteq> pkey d \<Longrightarrow> getItem (snd (fetchProfileData a now ls d)) k = getItem ls k"
  by (simp add: snd_fetchProfileData getItem_finish_lookup read_other split: http.split)

lemma fetch_cong:
  assumes "getItem ls (pkey d) = getItem ls' (pkey d)" "writable ls = writable ls'"
  shows "getItem (snd (fetchProfileData a now ls d)) (pkey d) =
           getItem (snd (fetchProfileData a now ls' d)) (pkey d)"
    and "fst (fetchProfileData a now ls d) = fst (fetchProfileData a now ls' d)"
  using assms read_fst_cong [OF assms(1), of now]
  by (simp_all add: snd_fetchProfileData fst_fetchProfileData getItem_finish_lookup read_at
      split: http.split)

lemma fetchProfiles_local:
  assumes "distinct dids"
  shows "(\<forall>d\<in>set dids. getItem (fetchProfiles a now ls dids) (pkey d) =
                          getItem (snd (fetchProfileData a now ls d)) (pkey d))
       \<and> (\<forall>k. k \<notin> pkey ` set dids \<longrightarrow> getItem (fetchProfiles a now ls dids) k = getItem ls k)
       \<and> writable (fetchProfiles a now ls dids) = writable ls"
  unfolding fetchProfiles_def
  by (rule fold_local, simp add: assms distinct_map_pkey, simp, simp add: fetch_other,
      (rule fetch_cong(1); assumption))

lemma reads_local:
  assumes "distinct dids"
  shows "(\<forall>d\<in>set dids. getItem (fold (\<lambda>d ls. snd (getProfile_cached ls now d)) dids ls) (pkey d) =
                          getItem (snd (getProfile_cached ls now d)) (pkey d))
       \<and> (\<forall>k. k \<notin> pkey ` set dids \<longrightarrow>
              getItem (fold (\<lambda>d ls. snd (getProfile_cached ls now d)) dids ls) k = getItem ls k)
       \<and> writable (fold (\<lambda>d ls. snd (getProfile_cached ls now d)) dids ls) = writable ls"
  by (rule fold_local, simp add: assms distinct_map_pkey, simp, simp add: read_other, simp add: read_at)

lemma finishes_local:
  assumes "distinct ds"
  shows "(\<forall>d\<in>set ds. getItem (fold (finish_lookup a now) ds ls) (pkey d) =
                        getItem (finish_lookup a now d ls) (pkey d))
       \<and> (\<forall>k. k \<notin> pkey ` set ds \<longrightarrow> getItem (fold (finish_lookup a now) ds ls) k = getItem ls k)
       \<and> writable (fold (finish_lookup a now) ds ls) = writable ls"
  by (rule fold_local, simp add: assms distinct_map_pkey, simp, simp add: getItem_finish_lookup split: http.split,
      simp add: getItem_finish_lookup split: http.split)

lemma start_lookup_eq:
  "start_lookup now d (acc, ls) =
     (if fst (getProfile_cached ls now d) = None then acc @ [d] else acc, snd (getProfile_cached ls now d))"
  by (simp add: start_lookup_def split: prod.split option.split)

lemma fold_start_lookup:
  "distinct ds \<Longrightarrow>
     fold (start_lookup now) ds (acc, ls) =
       (acc @ filter (\<lambda>d. fst (getProfile_cached ls now d) = None) ds,
        fold (\<lambda>d ls. snd (getProfile_cached ls now d)) ds ls)"
proof (induction ds arbitrary: acc ls)
  case (Cons d ds)
  let ?ls1 = "snd (getProfile_cached ls now d)"
  have "filter (\<lambda>d'. fst (getProfile_cached ?ls1 now d') = None) ds =
        filter (\<lambda>d'. fst (getProfile_cached ls now d') = None) ds"
    using Cons.prems by (intro filter_cong refl arg_cong [where f = "\<lambda>x. x = None"] read_fst_cong)
      (auto intro!: read_other)
  with Cons show ?case by (simp add: start_lookup_eq)
qed simp

lemma start_lookups_eq:
  "distinct dids \<Longrightarrow>
     start_lookups now ls dids =
       (filter (\<lambda>d. fst (getProfile_cached ls now d) = None) dids,
        fold (\<lambda>d ls. snd (getProfile_cached ls now d)) dids ls)"
  by (simp add: start_lookups_def fold_start_lookup)

lemma read_unchanged:
  "fresh_entry now (getItem ls (pkey d)) \<Longrightarrow> snd (getProfile_cached ls now d) = ls"
  by (auto simp: fresh_entry_def snd_getProfile cache_get_def split: option.splits stored.splits)

lemma PROFILE_TTL_nonneg [simp]: "\<not> PROFILE_TTL < 0"
  by (simp add: PROFILE_TTL_def)

lemma fetch_fresh: "fresh_entry now (getItem (snd (fetchProfileData a now ls d)) (pkey d))"
proof (cases "fst (getProfile_cached ls now d)")
  case None
  then show ?thesis
    by (simp add: snd_fetchProfileData getItem_finish_lookup read_at fresh_entry_def isExpired_def
        split: http.split option.split stored.split)
next
  case (Some p)
  then have "cache_get ls now (profile_key d) = (Some (CProfile p), ls)"
    by (auto simp: fst_getProfile intro: cache_get_Some_unchanged split: option.splits cache_data.splits)
  then show ?thesis using Some
    by (auto simp: snd_fetchProfileData snd_getProfile fresh_entry_def cache_get_def
        split: option.splits stored.splits if_splits)
qed

lemma read_twice:
  "fst (getProfile_cached ls now d) = None \<Longrightarrow>
     fst (getProfile_cached (snd (getProfile_cached ls now d)) now d) = None"
  by (simp add: fst_getProfile snd_getProfile cache_get_def store_simps
      split: option.splits stored.splits if_splits)

lemma fetch_then_read:
  assumes "writable ls"
  shows "fst (getProfile_cached (snd (fetchProfileData a now ls d)) now d) = fst (fetchProfileData a now ls d)"
proof (cases "fst (getProfile_cached ls now d)")
  case None
  show ?thesis
  proof (cases "getProfile a d")
    case (HOk p)
    then show ?thesis using None assms
      by (simp add: snd_fetchProfileData fst_fetchProfileData finish_lookup_def setProfile_def
          fst_getProfile cache_get_after_set)
  qed (use None in \<open>simp_all add: snd_fetchProfileData fst_fetchProfileData finish_lookup_def read_twice\<close>)
next
  case (Some p)
  then show ?thesis
    by (simp add: snd_fetchProfileData fst_fetchProfileData getProfile_Some_unchanged)
qed

lemma snd_lookup_avatar: "snd (lookup_avatar now ls d) = snd (getProfile_cached ls now d)"
  by (simp add: lookup_avatar_def split: prod.split option.split)

lemma lookup_avatar_pure:
  "snd (getProfile_cached ls now d) = ls \<Longrightarrow> lookup_avatar now ls d = (fst (lookup_avatar now ls d), ls)"
  by (metis prod.collapse snd_lookup_avatar)

lemma set_author_avatar_resolved:
  "set_author_avatar (f (did (post_author p))) p = p\<lparr>post_author := resolved_avatar f (post_author p)\<rparr>"
  by (simp add: set_author_avatar_def resolved_avatar_def split: option.split)

lemma enhance_embed_pure:
  assumes "\<And>a. embedded_author eo = Some a \<Longrightarrow> snd (getProfile_cached ls now (did a)) = ls"
  shows "enhance_embed now ls eo =
           (map_embedded_author (resolved_avatar (\<lambda>d. fst (lookup_avatar now ls d))) eo, ls)"
proof (cases "embedded_author eo")
  case None
  have "map_embedded_author (resolved_avatar (\<lambda>d. fst (lookup_avatar now ls d))) eo = eo"
    by (rule map_embedded_author_id) (simp add: None)
  with None show ?thesis by (simp add: enhance_embed_def)
next
  case (Some a)
  have l: "lookup_avatar now ls (did a) = (fst (lookup_avatar now ls (did a)), ls)"
    using assms [OF Some] by (rule lookup_avatar_pure)
  show ?thesis
  proof (cases "fst (lookup_avatar now ls (did a))")
    case None
    have "map_embedded_author (resolved_avatar (\<lambda>d. fst (lookup_avatar now ls d))) eo = eo"
      by (rule map_embedded_author_id) (simp add: Some None resolved_avatar_def)
    then show ?thesis using Some l None by (simp add: enhance_embed_def)
  next
    case s: (Some s)
    have "map_embedded_author (\<lambda>x. x\<lparr>avatar := Some s\<rparr>) eo =
          map_embedded_author (resolved_avatar (\<lambda>d. fst (lookup_avatar now ls d))) eo"
      by (rule map_embedded_author_cong) (simp add: Some s resolved_avatar_def)
    then show ?thesis using Some l s by (simp add: enhance_embed_def)
  qed
qed

lemma post_embed_set_author_avatar [simp]: "post_embed (set_author_avatar av p) = post_embed p"
  by (simp add: set_author_avatar_def split: option.split)

lemma enhance_pure:
  "(\<And>a. a \<in> set (thread_authors t) \<Longrightarrow> snd (getProfile_cached ls now (did a)) = ls) \<Longrightarrow>
     enhanceThreadWithAvatars now ls t = (map_authors (resolved_avatar (\<lambda>d. fst (lookup_avatar now ls d))) t, ls)"
  "(\<And>a. a \<in> (\<Union>t\<in>set ts. set (thread_authors t)) \<Longrightarrow> snd (getProfile_cached ls now (did a)) = ls) \<Longrightarrow>
     enhance_children now ls ts = (map (map_authors (resolved_avatar (\<lambda>d. fst (lookup_avatar now ls d)))) ts, ls)"
proof (induction now ls t and now ls ts rule: enhanceThreadWithAvatars_enhance_children.induct)
  case (1 now ls x cs r)
  let ?f = "\<lambda>d. fst (lookup_avatar now ls d)"
  let ?p = "post x"
  have la: "lookup_avatar now ls (did (post_author ?p)) = (?f (did (post_author ?p)), ls)"
    by (rule lookup_avatar_pure) (simp add: "1.prems")
  have ee: "enhance_embed now ls (post_embed ?p) =
              (map_embedded_author (resolved_avatar ?f) (post_embed ?p), ls)"
    by (rule enhance_embed_pure) (simp add: "1.prems")
  have ee2: "enhance_embed now ls (post_embed (set_author_avatar (?f (did (post_author ?p))) ?p)) =
              (map_embedded_author (resolved_avatar ?f) (post_embed ?p), ls)"
    using ee by simp
  have ec: "enhance_children now ls cs = (map (map_authors (resolved_avatar ?f)) cs, ls)"
    by (rule "1.IH" [OF refl la [symmetric] refl refl ee2 [symmetric]]) (auto simp: "1.prems")
  show ?case
    by (simp only: enhanceThreadWithAvatars.simps Let_def, subst la) (simp add: ee ec set_author_avatar_resolved [of ?f])
next
  case (3 now ls t ts)
  then show ?case by (simp split: prod.split)
qed simp

lemma set_collectDids:
  "set (collectDids ts) = did ` (\<Union>t\<in>set ts. set (thread_authors t))"
proof -
  have "set (fold collectDidsFromThread ts acc) = set acc \<union> did ` (\<Union>t\<in>set ts. set (thread_authors t))" for acc
    by (induction ts arbitrary: acc) (auto simp: set_collectDidsFromThread)
  then show ?thesis by (simp add: collectDids_def)
qed

lemma distinct_collectDids: "distinct (collectDids ts)"
proof -
  have "distinct acc \<Longrightarrow> distinct (fold collectDidsFromThread ts acc)" for acc
    by (induction ts arbitrary: acc) (auto simp: distinct_collectDidsFromThread)
  then show ?thesis by (simp add: collectDids_def)
qed

lemma fst_lookup_avatar:
  "fst (lookup_avatar now ls d) =
     (case fst (getProfile_cached ls now d) of
        Some p \<Rightarrow> if js_truthy (profile_avatar p) then profile_avatar p else None
      | None \<Rightarrow> None)"
  by (simp add: lookup_avatar_def split: prod.split option.split)

lemma after_fetchProfiles:
  assumes "writable ls" and "d \<in> set (collectDids ts)"
  shows "snd (getProfile_cached (fetchProfiles a now ls (collectDids ts)) now d) =
           fetchProfiles a now ls (collectDids ts)"
    and "fst (lookup_avatar now (fetchProfiles a now ls (collectDids ts)) d) = fetched_avatar a now ls d"
proof -
  let ?ls1 = "fetchProfiles a now ls (collectDids ts)"
  have at: "getItem ?ls1 (pkey d) = getItem (snd (fetchProfileData a now ls d)) (pkey d)"
    using fetchProfiles_local [OF distinct_collectDids, of ts a now ls] assms(2) by blast
  show "snd (getProfile_cached ?ls1 now d) = ?ls1"
    by (rule read_unchanged) (simp add: at fetch_fresh)
  have "fst (getProfile_cached ?ls1 now d) = fst (fetchProfileData a now ls d)"
    using read_fst_cong [OF at, of now] fetch_then_read [OF assms(1)] by simp
  then show "fst (lookup_avatar now ?ls1 d) = fetched_avatar a now ls d"
    by (simp add: fst_lookup_avatar fetched_avatar_def)
qed

lemma enhancePosts_writable_eq:
  assumes "writable ls"
  shows "enhancePostsWithAvatars a now ls ts =
           (map (map_authors (resolved_avatar (fetched_avatar a now ls))) ts,
            fetchProfiles a now ls (collectDids ts))"
proof -
  let ?ls1 = "fetchProfiles a now ls (collectDids ts)"
  let ?f = "\<lambda>d. fst (lookup_avatar now ?ls1 d)"
  have "enhance_children now ?ls1 ts = (map (map_authors (resolved_avatar ?f)) ts, ?ls1)"
    by (rule enhance_pure(2)) (use after_fetchProfiles(1) [OF assms] in \<open>auto simp: set_collectDids\<close>)
  moreover have f: "?f d = fetched_avatar a now ls d" if "d \<in> set (collectDids ts)" for d
    using after_fetchProfiles(2) [OF assms that] .
  have "map_authors (resolved_avatar ?f) t = map_authors (resolved_avatar (fetched_avatar a now ls)) t"
    if "t \<in> set ts" for t
  proof (rule map_authors_cong)
    fix au assume "au \<in> set (thread_authors t)"
    then have "did au \<in> set (collectDids ts)" using that by (auto simp: set_collectDids)
    then show "resolved_avatar ?f au = resolved_avatar (fetched_avatar a now ls) au"
      by (simp add: resolved_avatar_def f)
  qed
  ultimately show ?thesis
    by (simp add: enhancePostsWithAvatars_def)
qed

lemma without_avatar_set [simp]: "without_avatar (x\<lparr>avatar := v\<rparr>) = without_avatar x"
  by (simp add: without_avatar_def)

lemma author_set_author_avatar:
  "without_avatar (post_author (set_author_avatar av p)) = without_avatar (post_author p)"
  by (simp add: set_author_avatar_def split: option.split)

lemma erase_enhance_embed:
  "map_embedded_author without_avatar (fst (enhance_embed now ls eo)) = map_embedded_author without_avatar eo"
  by (simp add: enhance_embed_def comp_def split: option.split prod.split)

lemma erase_set_author_avatar:
  "(set_author_avatar av p)\<lparr>post_author := without_avatar (post_author (set_author_avatar av p)),
      post_embed := e\<rparr> = p\<lparr>post_author := without_avatar (post_author p), post_embed := e\<rparr>"
  by (simp add: set_author_avatar_def split: option.split)

lemma enhance_erase:
  "map_authors without_avatar (fst (enhanceThreadWithAvatars now ls t)) = map_authors without_avatar t"
  "map (map_authors without_avatar) (fst (enhance_children now ls ts)) = map (map_authors without_avatar) ts"
proof (induction now ls t and now ls ts rule: enhanceThreadWithAvatars_enhance_children.induct)
  case (1 now ls x cs r)
  obtain av ls1 where l: "lookup_avatar now ls (did (post_author (post x))) = (av, ls1)"
    by fastforce
  obtain e ls2 where ee: "enhance_embed now ls1 (post_embed (post x)) = (e, ls2)"
    by fastforce
  have IH: "map (map_authors without_avatar) (fst (enhance_children now ls2 cs)) =
              map (map_authors without_avatar) cs"
    by (rule "1.IH" [OF refl l [symmetric] refl refl]) (simp add: ee)
  have "map_embedded_author without_avatar e = map_embedded_author without_avatar (post_embed (post x))"
    using erase_enhance_embed [of now ls1 "post_embed (post x)"] ee by simp
  moreover obtain cs' ls3 where "enhance_children now ls2 cs = (cs', ls3)" by fastforce
  ultimately show ?case using IH
    by (simp add: l ee erase_set_author_avatar)
next
  case (3 now ls t ts)
  obtain t' ls1 where e: "enhanceThreadWithAvatars now ls t = (t', ls1)" by fastforce
  moreover obtain ts' ls2 where "enhance_children now ls1 ts = (ts', ls2)" by fastforce
  ultimately show ?case using "3.IH"(1) "3.IH"(2) [OF refl e [symmetric]] by simp
qed simp

lemma read_keeps_none:
  assumes "\<forall>d. fst (getProfile_cached ls now d) = None"
  shows "fst (getProfile_cached (snd (getProfile_cached ls now d')) now d) = None"
proof (cases "d = d'")
  case True
  then show ?thesis using assms by (simp add: read_twice)
next
  case False
  then have "getItem (snd (getProfile_cached ls now d')) (pkey d) = getItem ls (pkey d)"
    by (simp add: read_other)
  then show ?thesis using assms read_fst_cong by metis
qed

lemma fetch_unwritable_keeps_none:
  assumes "\<not> writable ls" and "\<forall>d. fst (getProfile_cached ls now d) = None"
  shows "\<forall>d. fst (getProfile_cached (snd (fetchProfileData a now ls d')) now d) = None"
proof
  fix d
  have "getItem (snd (fetchProfileData a now ls d')) (pkey d) =
        getItem (snd (getProfile_cached ls now d')) (pkey d)"
    using assms by (simp add: snd_fetchProfileData getItem_finish_lookup split: http.split)
  then show "fst (getProfile_cached (snd (fetchProfileData a now ls d')) now d) = None"
    using read_keeps_none [OF assms(2)] read_fst_cong by metis
qed

lemma fetchProfiles_unwritable_keeps_none:
  "\<not> writable ls \<Longrightarrow> \<forall>d. fst (getProfile_cached ls now d) = None \<Longrightarrow>
     \<forall>d. fst (getProfile_cached (fetchProfiles a now ls dids) now d) = None"
  unfolding fetchProfiles_def
  by (induction dids arbitrary: ls) (simp_all add: fetch_unwritable_keeps_none)

lemma lookup_avatar_none:
  "fst (getProfile_cached ls now d) = None \<Longrightarrow> lookup_avatar now ls d = (None, snd (getProfile_cached ls now d))"
  by (simp add: prod_eq_iff fst_lookup_avatar snd_lookup_avatar)

lemma enhance_no_profiles:
  "\<forall>d. fst (getProfile_cached ls now d) = None \<Longrightarrow>
     fst (enhanceThreadWithAvatars now ls t) = t
     \<and> (\<forall>d. fst (getProfile_cached (snd (enhanceThreadWithAvatars now ls t)) now d) = None)"
  "\<forall>d. fst (getProfile_cached ls now d) = None \<Longrightarrow>
     fst (enhance_children now ls ts) = ts
     \<and> (\<forall>d. fst (getProfile_cached (snd (enhance_children now ls ts)) now d) = None)"
proof (induction now ls t and now ls ts rule: enhanceThreadWithAvatars_enhance_children.induct)
  case (1 now ls x cs r)
  let ?ls1 = "snd (getProfile_cached ls now (did (post_author (post x))))"
  have l: "lookup_avatar now ls (did (post_author (post x))) = (None, ?ls1)"
    using "1.prems" by (simp add: lookup_avatar_none)
  have n1: "\<forall>d. fst (getProfile_cached ?ls1 now d) = None"
    using read_keeps_none [OF "1.prems"] by blast
  obtain ls2 where ee: "enhance_embed now ?ls1 (post_embed (post x)) = (post_embed (post x), ls2)"
    and n2: "\<forall>d. fst (getProfile_cached ls2 now d) = None"
  proof (cases "embedded_author (post_embed (post x))")
    case None
    then show ?thesis using that n1 by (simp add: enhance_embed_def)
  next
    case (Some au)
    then show ?thesis using that n1 read_keeps_none [OF n1]
      by (simp add: enhance_embed_def lookup_avatar_none)
  qed
  have IH: "fst (enhance_children now ls2 cs) = cs
        \<and> (\<forall>d. fst (getProfile_cached (snd (enhance_children now ls2 cs)) now d) = None)"
    by (rule "1.IH" [OF refl l [symmetric] refl refl]) (simp_all add: set_author_avatar_def ee n2)
  obtain cs' ls3 where "enhance_children now ls2 cs = (cs', ls3)" by fastforce
  with IH show ?case by (simp add: l ee set_author_avatar_def)
next
  case (3 now ls t ts)
  obtain t' ls1 where e: "enhanceThreadWithAvatars now ls t = (t', ls1)" by fastforce
  moreover have "t' = t" and n1: "\<forall>d. fst (getProfile_cached ls1 now d) = None"
    using "3.IH"(1) [OF "3.prems"] e by simp_all
  moreover obtain ts' ls2 where "enhance_children now ls1 ts = (ts', ls2)" by fastforce
  ultimately show ?case using "3.IH"(2) [OF refl e [symmetric] n1] by simp
qed simp

lemma collect_map_authors:
  assumes "\<And>x. did (g x) = did x"
  shows "collectDidsFromThread (map_authors g t) acc = collectDidsFromThread t acc"
proof (induction t acc rule: collectDidsFromThread.induct)
  case (1 x cs r uniqueDids)
  have "fold collectDidsFromThread (map (map_authors g) cs) acc = fold collectDidsFromThread cs acc" for acc
    unfolding fold_map comp_def by (intro fold_cong refl ext) (simp add: 1)
  then show ?case by (simp add: assms Let_def split: option.split)
qed

lemma collectDids_map_authors:
  assumes "\<And>x. did (g x) = did x"
  shows "collectDids (map (map_authors g) ts) = collectDids ts"
  unfolding collectDids_def fold_map comp_def
  by (intro fold_cong refl ext) (simp add: collect_map_authors assms)

lemma did_resolved_avatar [simp]: "did (resolved_avatar f x) = did x"
  by (simp add: resolved_avatar_def split: option.split)

lemma resolved_avatar_idem: "resolved_avatar f (resolved_avatar f x) = resolved_avatar f x"
  by (simp add: resolved_avatar_def split: option.split)

lemma read_after_fetchProfiles:
  assumes "writable ls" and "d \<in> set (collectDids ts)"
  shows "fst (getProfile_cached (fetchProfiles a now ls (collectDids ts)) now d) = fst (fetchProfileData a now ls d)"
proof -
  have "getItem (fetchProfiles a now ls (collectDids ts)) (pkey d) = getItem (snd (fetchProfileData a now ls d)) (pkey d)"
    using fetchProfiles_local [OF distinct_collectDids, of ts a now ls] assms(2) by blast
  then show ?thesis using read_fst_cong fetch_then_read [OF assms(1)] by metis
qed

lemma fetch_again:
  assumes "writable ls" and "d \<in> set (collectDids ts)"
  shows "fst (fetchProfileData a now (fetchProfiles a now ls (collectDids ts)) d) = fst (fetchProfileData a now ls d)"
  using read_after_fetchProfiles [OF assms]
  by (simp add: fst_fetchProfileData split: option.splits http.splits)

lemma writable_fetchProfiles [simp]: "writable (fetchProfiles a now ls dids) = writable ls"
  by (induction dids arbitrary: ls) (simp_all add: fetchProfiles_def)

lemma resolved_avatar_cong: "f (did x) = g (did x) \<Longrightarrow> resolved_avatar f x = resolved_avatar g x"
  by (simp add: resolved_avatar_def)

lemma fetchProfileData_none_iff:
  "fst (fetchProfileData a now ls d) = None \<longleftrightarrow>
     fst (getProfile_cached ls now d) = None \<and> (\<forall>p. getProfile a d \<noteq> HOk p)"
  by (simp add: fst_fetchProfileData split: option.split http.split)

subsection \<open>Properties of the enricher\<close>

text \<open>
  C4: Refinement. With a writable store, \<open>enhancePostsWithAvatars\<close> is the pure
  transform of the specification (4.5): every author reference of every node, the post's
  author and the quoted author alike, gets the avatar of the profile that
  \<open>fetchProfileData\<close> resolves for its identifier, when that profile has one, and keeps
  its own otherwise.
\<close>

theorem enhance_refines:
  assumes "writable ls"
  shows "fst (enhancePostsWithAvatars a now ls ts) =
           map (map_authors (resolved_avatar (fetched_avatar a now ls))) ts"
  by (simp add: enhancePosts_writable_eq [OF assms])

theorem enhance_refines_witness:
  "avatar (post_author (post (item (hd (fst (enhancePostsWithAvatars avatar_api 0 empty_storage
      [example_thread ''u''])))))) = Some ''https://cdn.example/avatar.jpg''"
  using enhance_refines [of empty_storage avatar_api 0 "[example_thread ''u'']"]
  by (simp add: empty_storage_def example_thread_def fetched_avatar_def fst_fetchProfileData
      fst_getProfile cache_get_def getItem_def avatar_api_def example_profile_def resolved_avatar_def)

text \<open>
  C10: Interleaving. \<open>Promise.all\<close> issues every cache read first and lets the requests
  complete in any order. Whatever the completion order (any permutation of the pending
  lookups), the store it leaves answers every key as the sequential run of
  \<open>fetchProfileData\<close> does.
\<close>

theorem fetchProfiles_interleaving:
  assumes "distinct dids"
    and "mset completion = mset (fst (start_lookups now ls dids))"
  shows "getItem (fetchProfiles_concurrent a now ls dids completion) = getItem (fetchProfiles a now ls dids)"
proof
  fix k
  let ?pend = "filter (\<lambda>d. fst (getProfile_cached ls now d) = None) dids"
  let ?ls1 = "fold (\<lambda>d ls. snd (getProfile_cached ls now d)) dids ls"
  have conc: "fetchProfiles_concurrent a now ls dids completion = fold (finish_lookup a now) completion ?ls1"
    using assms(1) by (simp add: fetchProfiles_concurrent_def start_lookups_eq)
  have mc: "mset completion = mset ?pend"
    using assms by (simp add: start_lookups_eq)
  then have sc: "set completion = set ?pend"
    by (rule mset_eq_setD)
  have dc: "distinct completion"
    using mset_eq_imp_distinct_iff [OF mc] assms(1) by simp
  note R = reads_local [OF assms(1), of now ls]
  note F = finishes_local [OF dc, of a now ?ls1]
  note S = fetchProfiles_local [OF assms(1), of a now ls]
  show "getItem (fetchProfiles_concurrent a now ls dids completion) k = getItem (fetchProfiles a now ls dids) k"
  proof (cases "k \<in> pkey ` set dids")
    case True
    then obtain d where d: "d \<in> set dids" "k = pkey d" by auto
    have r1: "getItem ?ls1 (pkey d) = getItem (snd (getProfile_cached ls now d)) (pkey d)"
      using R d(1) by blast
    have w1: "writable ?ls1 = writable ls"
      using R by blast
    show ?thesis
    proof (cases "fst (getProfile_cached ls now d) = None")
      case miss: True
      then have "d \<in> set completion" using sc d by simp
      then have "getItem (fold (finish_lookup a now) completion ?ls1) k =
                 getItem (finish_lookup a now d ?ls1) (pkey d)"
        using F d(2) by blast
      also have "\<dots> = getItem (finish_lookup a now d (snd (getProfile_cached ls now d))) (pkey d)"
        using r1 w1 by (simp add: getItem_finish_lookup split: http.split)
      also have "\<dots> = getItem (snd (fetchProfileData a now ls d)) (pkey d)"
        using miss by (simp add: snd_fetchProfileData)
      finally show ?thesis using S d conc by simp
    next
      case hit: False
      then have "k \<notin> pkey ` set completion" using sc d by auto
      then have "getItem (fold (finish_lookup a now) completion ?ls1) k = getItem ?ls1 k"
        using F by blast
      also have "\<dots> = getItem (snd (fetchProfileData a now ls d)) (pkey d)"
        using hit r1 d(2) by (simp only: snd_fetchProfileData if_False)
      finally show ?thesis using S d conc by simp
    qed
  next
    case False
    then have "k \<notin> pkey ` set completion" using sc by auto
    then show ?thesis using False F R S conc by simp
  qed
qed


theorem fetchProfiles_interleaving_witness:
  "getItem (fetchProfiles_concurrent avatar_api 0 empty_storage [''did:a'', ''did:b''] [''did:b'', ''did:a''])
     = getItem (fetchProfiles avatar_api 0 empty_storage [''did:a'', ''did:b''])"
  by (rule fetchProfiles_interleaving)
    (simp_all add: start_lookups_def start_lookup_eq empty_storage_def snd_getProfile fst_getProfile
      cache_get_def getItem_def)

text \<open>
  C30: Only avatars change. Enrichment leaves every node, its post and its children as
  they were, up to the avatar fields of the author references (spec 3: the avatar is the
  only field mutated after construction).
\<close>

theorem enhance_only_avatars:
  "map (map_authors without_avatar) (fst (enhancePostsWithAvatars a now ls ts)) =
     map (map_authors without_avatar) ts"
  by (simp add: enhancePostsWithAvatars_def enhance_erase(2))

text \<open>
  Collection. The identifiers whose profiles are requested are the identifiers of
  all author references of the forest, each once.
\<close>

theorem collectDids_authors:
  "distinct (collectDids ts) \<and> set (collectDids ts) = did ` (\<Union>t\<in>set ts. set (thread_authors t))"
  by (simp add: distinct_collectDids set_collectDids)

text \<open>
  C28: Idempotence (spec 8). With a writable store, a second enrichment of the result over
  the store the first one left returns the same forest, and requests again only the
  profiles whose first request failed.
\<close>

theorem enhance_idempotent:
  assumes "writable ls"
  shows "fst (enhancePostsWithAvatars a now (snd (enhancePostsWithAvatars a now ls ts))
                (fst (enhancePostsWithAvatars a now ls ts)))
           = fst (enhancePostsWithAvatars a now ls ts)
       \<and> set (fst (start_lookups now (snd (enhancePostsWithAvatars a now ls ts))
                     (collectDids (fst (enhancePostsWithAvatars a now ls ts)))))
           = {d \<in> set (fst (start_lookups now ls (collectDids ts))). \<forall>p. getProfile a d \<noteq> HOk p}"
proof -
  let ?F = "fetched_avatar a now ls"
  let ?ls1 = "fetchProfiles a now ls (collectDids ts)"
  let ?ts1 = "map (map_authors (resolved_avatar ?F)) ts"
  have e1: "enhancePostsWithAvatars a now ls ts = (?ts1, ?ls1)"
    by (rule enhancePosts_writable_eq [OF assms])
  have w1: "writable ?ls1" using assms by simp
  have c1: "collectDids ?ts1 = collectDids ts"
    by (rule collectDids_map_authors) simp
  have F': "fetched_avatar a now ?ls1 d = ?F d" if "d \<in> set (collectDids ts)" for d
    using fetch_again [OF assms that] by (simp add: fetched_avatar_def)
  have "map_authors (resolved_avatar (fetched_avatar a now ?ls1)) (map_authors (resolved_avatar ?F) t)
          = map_authors (resolved_avatar ?F) t" if "t \<in> set ts" for t
  proof -
    have "map_authors (\<lambda>x. resolved_avatar (fetched_avatar a now ?ls1) (resolved_avatar ?F x)) t
            = map_authors (\<lambda>x. resolved_avatar ?F (resolved_avatar ?F x)) t"
    proof (rule map_authors_cong)
      fix x assume "x \<in> set (thread_authors t)"
      then have "did x \<in> set (collectDids ts)" using that by (auto simp: set_collectDids)
      then show "resolved_avatar (fetched_avatar a now ?ls1) (resolved_avatar ?F x)
                   = resolved_avatar ?F (resolved_avatar ?F x)"
        by (intro resolved_avatar_cong) (simp add: F')
    qed
    then show ?thesis by (simp add: resolved_avatar_idem)
  qed
  then have out: "fst (enhancePostsWithAvatars a now ?ls1 ?ts1) = ?ts1"
    by (simp add: enhancePosts_writable_eq [OF w1])
  have "fst (getProfile_cached ?ls1 now d) = None \<longleftrightarrow>
          fst (getProfile_cached ls now d) = None \<and> (\<forall>p. getProfile a d \<noteq> HOk p)"
    if "d \<in> set (collectDids ts)" for d
    using read_after_fetchProfiles [OF assms that] by (simp add: fetchProfileData_none_iff)
  then have req: "set (fst (start_lookups now ?ls1 (collectDids ts)))
      = {d \<in> set (fst (start_lookups now ls (collectDids ts))). \<forall>p. getProfile a d \<noteq> HOk p}"
    by (auto simp: start_lookups_eq distinct_collectDids)
  show ?thesis using out req c1 by (simp add: e1)
qed

theorem enhance_idempotent_witness:
  "fst (enhancePostsWithAvatars avatar_api 0 (snd (enhancePostsWithAvatars avatar_api 0 empty_storage [example_thread ''u'']))
      (fst (enhancePostsWithAvatars avatar_api 0 empty_storage [example_thread ''u''])))
     = fst (enhancePostsWithAvatars avatar_api 0 empty_storage [example_thread ''u''])
   \<and> set (fst (start_lookups 0 (snd (enhancePostsWithAvatars avatar_api 0 empty_storage [example_thread ''u'']))
       (collectDids (fst (enhancePostsWithAvatars avatar_api 0 empty_storage [example_thread ''u'']))))) = {}"
  using enhance_idempotent [of empty_storage avatar_api 0 "[example_thread ''u'']"]
  by (simp add: empty_storage_def avatar_api_def)

text \<open>
  C29: A store that cannot be written loses every fetched profile. When \<open>localStorage\<close>
  refuses writes and holds no profile, enrichment returns the forest unchanged, even when
  every profile request succeeds with an avatar: the results of \<open>Promise.all\<close> are
  discarded and the second traversal reads the avatars from the cache only.
\<close>

theorem enhance_unwritable_no_avatars:
  assumes "\<not> writable ls" and "\<forall>d. fst (getProfile_cached ls now d) = None"
  shows "fst (enhancePostsWithAvatars a now ls ts) = ts"
  using enhance_no_profiles(2) [OF fetchProfiles_unwritable_keeps_none [OF assms]]
  by (simp add: enhancePostsWithAvatars_def)

theorem enhance_unwritable_no_avatars_witness:
  "fst (enhancePostsWithAvatars avatar_api 0 readonly_storage [example_thread ''u'']) = [example_thread ''u'']
   \<and> fetched_avatar avatar_api 0 readonly_storage ''did:me'' = Some ''https://cdn.example/avatar.jpg''"
  using enhance_unwritable_no_avatars [of readonly_storage 0 avatar_api "[example_thread ''u'']"]
  by (simp add: readonly_storage_def fetched_avatar_def fst_fetchProfileData fst_getProfile cache_get_def
      getItem_def avatar_api_def example_profile_def)

end
