(* ===== verification/Presentation.thy ===== *)
theory Presentation
  imports Avatars
begin

text \<open>
  The presentation helpers of \<open>src/utils/bluesky.ts\<close>: \<open>formatPostText\<close> (lines
  346--412), \<open>formatDate\<close> (417--440), \<open>getPostUrl\<close> (445--450), \<open>extractImages\<close>
  (455--474) and \<open>getEngagementStats\<close> (641--651). A string is a list of characters,
  one per UTF-16 code unit, the unit of JavaScript's \<open>slice\<close>. The three regular
  expression replacements of \<open>formatPostText\<close> for text without facets are the
  parameter \<open>linkify\<close>; the facet path and the newline replacement are modelled exactly.
  \<open>formatDate\<close> returns the label it renders as a value of \<open>date_label\<close>; the
  locale formatting of old dates (\<open>toLocaleDateString\<close>) is the constructor
  \<open>DLocale\<close> with the date and whether the year is shown, and the calendar year of an
  instant in the browser's time zone is the parameter \<open>year_of\<close>.
\<close>

subsection \<open>\<open>String.split\<close> on one character, and its inverse\<close>

fun split_on_acc :: "'a \<Rightarrow> 'a list \<Rightarrow> 'a list \<Rightarrow> 'a list list" where
  "split_on_acc c [] acc = [rev acc]"
| "split_on_acc c (x # xs) acc =
     (if x = c then rev acc # split_on_acc c xs [] else split_on_acc c xs (x # acc))"

definition split_on :: "'a \<Rightarrow> 'a list \<Rightarrow> 'a list list" where
  "split_on c s = split_on_acc c s []"

fun join_on :: "'a \<Rightarrow> 'a list list \<Rightarrow> 'a list" where
  "join_on c [] = []"
| "join_on c [s] = s"
| "join_on c (s # ss) = s @ c # join_on c ss"

subsection \<open>\<open>getPostUrl\<close>\<close>

text \<open>
  \<open>uri.split("/").pop()\<close>: the last segment. \<open>split\<close> never returns an empty array, so
  \<open>pop\<close> always has an element.
\<close>

definition getPostUrl :: "uri \<Rightarrow> string \<Rightarrow> string" where
  "getPostUrl u h =
     (let postId = last (split_on CHR ''/'' u)
      in ''https://bsky.app/profile/'' @ h @ ''/post/'' @ postId)"

text \<open>The AT-URI format the comment of \<open>getPostUrl\<close> names: \<open>at://did/collection/rkey\<close>.\<close>

definition at_uri :: "did \<Rightarrow> string \<Rightarrow> string \<Rightarrow> uri" where
  "at_uri d coll rkey = ''at://'' @ d @ ''/'' @ coll @ ''/'' @ rkey"

subsection \<open>\<open>extractImages\<close> and \<open>getEngagementStats\<close>\<close>

definition EMBED_IMAGES_VIEW :: string where
  "EMBED_IMAGES_VIEW = ''app.bsky.embed.images#view''"

definition extractImages :: "embed option \<Rightarrow> string list" where
  "extractImages eo =
     (case eo of
        None \<Rightarrow> []
      | Some e \<Rightarrow>
          (case (embed_type e = EMBED_IMAGES_VIEW, embed_images e) of
             (True, Some imgs) \<Rightarrow> map fullsize imgs
           | _ \<Rightarrow>
               (case (embed_type e = EMBED_RECORD_WITH_MEDIA_VIEW, embed_media e) of
                  (True, Some m) \<Rightarrow>
                    (case (media_type m = EMBED_IMAGES_VIEW, media_images m) of
                       (True, Some imgs) \<Rightarrow> map fullsize imgs
                     | _ \<Rightarrow> [])
                | _ \<Rightarrow> [])))"

record engagement =
  likes :: nat
  reposts :: nat
  replies :: nat

text \<open>\<open>n || 0\<close> on an optional count.\<close>

definition or_zero :: "nat option \<Rightarrow> nat" where
  "or_zero n = (case n of None \<Rightarrow> 0 | Some k \<Rightarrow> k)"

definition getEngagementStats :: "post \<Rightarrow> engagement" where
  "getEngagementStats p =
     \<lparr>likes = or_zero (likeCount p), reposts = or_zero (repostCount p),
      replies = or_zero (replyCount p)\<rparr>"

subsection \<open>\<open>formatDate\<close>\<close>

datatype date_label =
    DNow
  | DMinutes int
  | DHours int
  | DDays int
  | DLocale time bool
  | DInvalid

text \<open>
  \<open>Math.floor\<close> of a quotient of integers is \<open>div\<close> on \<open>int\<close>, which rounds towards
  minus infinity. An unparsable date string makes every difference \<open>NaN\<close>, every
  comparison false, and \<open>toLocaleDateString\<close> answers \<open>"Invalid Date"\<close>: \<open>DInvalid\<close>.
\<close>

definition formatDate :: "(time \<Rightarrow> int) \<Rightarrow> time \<Rightarrow> time option \<Rightarrow> date_label" where
  "formatDate year_of now date =
     (case date of
        None \<Rightarrow> DInvalid
      | Some d \<Rightarrow>
          (let diffMs = now - d;
               diffMinutes = diffMs div (1000 * 60);
               diffHours = diffMs div (1000 * 60 * 60);
               diffDays = diffMs div (1000 * 60 * 60 * 24)
           in if diffMinutes < 1 then DNow
              else if diffMinutes < 60 then DMinutes diffMinutes
              else if diffHours < 24 then DHours diffHours
              else if diffDays < 7 then DDays diffDays
              else DLocale d (year_of d \<noteq> year_of now)))"

subsection \<open>\<open>formatPostText\<close>\<close>

definition FACET_LINK :: string where
  "FACET_LINK = ''app.bsky.richtext.facet#link''"

definition FACET_MENTION :: string where
  "FACET_MENTION = ''app.bsky.richtext.facet#mention''"

text \<open>A template literal prints an absent field as \<open>undefined\<close>.\<close>

fun js_str :: "string option \<Rightarrow> string" where
  "js_str None = ''undefined''"
| "js_str (Some s) = s"

definition anchor :: "string \<Rightarrow> string \<Rightarrow> string" where
  \<open>anchor href t = ''<a href="'' @ href @ ''" target="_blank" rel="noopener noreferrer">'' @ t @ ''</a>''\<close>

text \<open>The inner \<open>for\<close> loop: the first link or mention feature decides, then \<open>break\<close>.\<close>

fun facet_markup :: "facet_feature list \<Rightarrow> string \<Rightarrow> string option" where
  "facet_markup [] t = None"
| "facet_markup (f # fs) t =
     (if feature_type f = FACET_LINK then Some (anchor (js_str (feature_uri f)) t)
      else if feature_type f = FACET_MENTION then
        Some (anchor (''https://bsky.app/profile/'' @ js_str (feature_did f)) t)
      else facet_markup fs t)"

text \<open>\<open>s.slice(b, e)\<close> for offsets \<open>0 \<le> b, e\<close>.\<close>

definition slice :: "nat \<Rightarrow> nat \<Rightarrow> 'a list \<Rightarrow> 'a list" where
  "slice b e xs = take (e - b) (drop b xs)"

definition apply_facet :: "string \<Rightarrow> facet \<Rightarrow> string" where
  "apply_facet txt f =
     (let beforeText = take (byteStart f) txt;
          facetText = slice (byteStart f) (byteEnd f) txt;
          afterText = drop (byteEnd f) txt
      in case facet_markup (features f) facetText of
           None \<Rightarrow> txt
         | Some m \<Rightarrow> beforeText @ m @ afterText)"

text \<open>\<open>replace(/\n/g, "<br>")\<close>.\<close>

definition br_newlines :: "string \<Rightarrow> string" where
  "br_newlines s = concat (map (\<lambda>c. if c = CHR 0x0A then ''<br>'' else [c]) s)"

text \<open>
  \<open>[...facets].sort((a, b) => b.index.byteStart - a.index.byteStart)\<close> is a stable
  sort by descending start; the facets are then applied in that order.
\<close>

definition formatPostText :: "(string \<Rightarrow> string) \<Rightarrow> string \<Rightarrow> facet list option \<Rightarrow> string" where
  "formatPostText linkify text facets =
     (case facets of
        None \<Rightarrow> br_newlines (linkify text)
      | Some [] \<Rightarrow> br_newlines (linkify text)
      | Some fs \<Rightarrow>
          br_newlines (foldl apply_facet text (sort_key (\<lambda>f. - int (byteStart f)) fs)))"

subsection \<open>Reference: facets spliced into the original text in one pass\<close>

text \<open>
  The intended result of the facet path: the text cut at the facet boundaries of the
  original string, each facet's span replaced by its markup. \<open>facets_ok n i fs\<close> says
  the facets, in order, are non-empty, disjoint, start at or after \<open>i\<close> and end within
  \<open>n\<close> code units.
\<close>

fun splice_from :: "nat \<Rightarrow> string \<Rightarrow> facet list \<Rightarrow> string" where
  "splice_from i txt [] = drop i txt"
| "splice_from i txt (f # fs) =
     slice i (byteStart f) txt
     @ (case facet_markup (features f) (slice (byteStart f) (byteEnd f) txt) of
          None \<Rightarrow> slice (byteStart f) (byteEnd f) txt
        | Some m \<Rightarrow> m)
     @ splice_from (byteEnd f) txt fs"

fun facets_ok :: "nat \<Rightarrow> nat \<Rightarrow> facet list \<Rightarrow> bool" where
  "facets_ok n i [] = True"
| "facets_ok n i (f # fs) =
     (i \<le> byteStart f \<and> byteStart f < byteEnd f \<and> byteEnd f \<le> n \<and> facets_ok n (byteEnd f) fs)"

text \<open>A facet with one feature, for the witnesses.\<close>

definition example_facet :: "nat \<Rightarrow> nat \<Rightarrow> string \<Rightarrow> string option \<Rightarrow> string option \<Rightarrow> facet" where
  "example_facet b e ty u d =
     \<lparr>byteStart = b, byteEnd = e, features = [\<lparr>feature_type = ty, feature_uri = u, feature_did = d\<rparr>]\<rparr>"

subsection \<open>Lemmas\<close>

lemma split_on_acc_ne [simp]: "split_on_acc c s acc \<noteq> []"
  by (induction c s acc rule: split_on_acc.induct) auto

lemma join_on_Cons: "ss \<noteq> [] \<Longrightarrow> join_on c (s # ss) = s @ c # join_on c ss"
  by (cases ss) auto

lemma join_split_on_acc: "join_on c (split_on_acc c s acc) = rev acc @ s"
  by (induction c s acc rule: split_on_acc.induct) (auto simp: join_on_Cons)

lemma split_on_acc_free: "c \<notin> set s \<Longrightarrow> split_on_acc c s acc = [rev acc @ s]"
  by (induction s arbitrary: acc) auto

lemma split_on_acc_sep:
  "c \<notin> set s \<Longrightarrow> split_on_acc c (s @ c # r) acc = (rev acc @ s) # split_on_acc c r []"
  by (induction s arbitrary: acc) auto

lemma last_split_on_acc: "last (split_on_acc c (p @ c # r) acc) = last (split_on_acc c r [])"
proof (induction p arbitrary: acc)
  case Nil
  then show ?case by simp
next
  case (Cons x p)
  then show ?case by (cases "x = c") (simp_all add: last_ConsR [OF split_on_acc_ne])
qed

lemma last_split_on: "c \<notin> set r \<Longrightarrow> last (split_on c (p @ c # r)) = r"
  by (simp add: split_on_def last_split_on_acc split_on_acc_free)

text \<open>
  \<open>uri.split("/")\<close> is undone by joining with the separator, and splitting a
  join of separator-free segments gives the segments back.
\<close>

theorem split_on_join_roundtrip:
  "join_on c (split_on c s) = s \<and>
   (ss \<noteq> [] \<and> (\<forall>t\<in>set ss. c \<notin> set t) \<longrightarrow> split_on c (join_on c ss) = ss)"
proof
  show "join_on c (split_on c s) = s" by (simp add: split_on_def join_split_on_acc)
  show "ss \<noteq> [] \<and> (\<forall>t\<in>set ss. c \<notin> set t) \<longrightarrow> split_on c (join_on c ss) = ss"
  proof (induction ss)
    case Nil
    then show ?case by simp
  next
    case (Cons s ss)
    then show ?case
      by (cases ss) (auto simp: split_on_def split_on_acc_free split_on_acc_sep)
  qed
qed

theorem split_on_join_roundtrip_witness:
  "split_on CHR ''/'' (join_on CHR ''/'' [''app.bsky.feed.post'', ''3k2a'']) = [''app.bsky.feed.post'', ''3k2a'']
   \<and> join_on CHR ''/'' (split_on CHR ''/'' ''at://did:plc:a/p/3k2a'') = ''at://did:plc:a/p/3k2a''"
  using split_on_join_roundtrip [of "CHR ''/''" "''at://did:plc:a/p/3k2a''" "[''app.bsky.feed.post'', ''3k2a'']"]
  by simp

lemma at_uri_sep: "at_uri d coll rkey = (''at://'' @ d @ ''/'' @ coll) @ CHR ''/'' # rkey"
  by (simp add: at_uri_def)

lemma getPostUrl_sep: "getPostUrl u h = (''https://bsky.app/profile/'' @ h @ ''/post'') @ CHR ''/'' # last (split_on CHR ''/'' u)"
  by (simp add: getPostUrl_def)

text \<open>
  C15: Post links. For an AT-URI \<open>at://did/collection/rkey\<close> whose record key has no
  slash, \<open>getPostUrl\<close> links to \<open>https://bsky.app/profile/handle/post/rkey\<close>, and
  the record key read back from that link (the last path segment) is the same key.
\<close>

theorem getPostUrl_roundtrip:
  assumes "CHR ''/'' \<notin> set rkey"
  shows "getPostUrl (at_uri d coll rkey) h = ''https://bsky.app/profile/'' @ h @ ''/post/'' @ rkey
    \<and> last (split_on CHR ''/'' (getPostUrl (at_uri d coll rkey) h)) = rkey"
proof -
  have r: "last (split_on CHR ''/'' (at_uri d coll rkey)) = rkey"
    unfolding at_uri_sep using assms by (rule last_split_on)
  have u: "getPostUrl (at_uri d coll rkey) h = (''https://bsky.app/profile/'' @ h @ ''/post'') @ CHR ''/'' # rkey"
    by (simp add: getPostUrl_def r)
  have "last (split_on CHR ''/'' ((''https://bsky.app/profile/'' @ h @ ''/post'') @ CHR ''/'' # rkey)) = rkey"
    using assms by (rule last_split_on)
  with u show ?thesis by simp
qed


theorem getPostUrl_roundtrip_witness:
  "getPostUrl (at_uri ''did:plc:a'' ''app.bsky.feed.post'' ''3k2a'') ''aly.ruffruff.party''
     = ''https://bsky.app/profile/aly.ruffruff.party/post/3k2a''"
  using getPostUrl_roundtrip [of "''3k2a''" "''did:plc:a''" "''app.bsky.feed.post''" "''aly.ruffruff.party''"]
  by simp

lemma int_div_bounds:
  fixes x k :: int
  assumes "0 < k"
  shows "k * (x div k) \<le> x" and "x < k * (x div k + 1)"
proof -
  have "k * (x div k) + x mod k = x" by (rule mult_div_mod_eq)
  moreover have "0 \<le> x mod k" and "x mod k < k" using assms by simp_all
  moreover have "k * (x div k + 1) = k * (x div k) + k" by (simp add: algebra_simps)
  ultimately show "k * (x div k) \<le> x" and "x < k * (x div k + 1)" by linarith+
qed

lemma int_div_ge_iff:
  fixes x k n :: int
  assumes "0 < k"
  shows "n \<le> x div k \<longleftrightarrow> k * n \<le> x"
  using assms zdiv_mono1 [of "k * n" x k] int_div_bounds [OF assms, of x]
  by (metis dual_order.trans mult_le_cancel_left_pos nonzero_mult_div_cancel_left
      order_less_imp_not_less)

text \<open>
  C17: Relative dates. \<open>formatDate\<close> says "now" exactly for differences under a
  minute (a date in the future included); a label of m minutes, h hours or d days has
  m in 1..59, h in 1..23, d in 1..6, and the difference lies in the floor interval of
  the label (\<open>Math.floor\<close>).
\<close>

theorem formatDate_bounds:
  "(formatDate y now (Some d) = DNow \<longleftrightarrow> now - d < 60000) \<and>
   (formatDate y now (Some d) = DMinutes m \<longrightarrow>
      1 \<le> m \<and> m < 60 \<and> 60000 * m \<le> now - d \<and> now - d < 60000 * (m + 1)) \<and>
   (formatDate y now (Some d) = DHours k \<longrightarrow>
      1 \<le> k \<and> k < 24 \<and> 3600000 * k \<le> now - d \<and> now - d < 3600000 * (k + 1)) \<and>
   (formatDate y now (Some d) = DDays n \<longrightarrow>
      1 \<le> n \<and> n < 7 \<and> 86400000 * n \<le> now - d \<and> now - d < 86400000 * (n + 1))"
  using int_div_bounds [of 60000 "now - d"] int_div_bounds [of 3600000 "now - d"]
    int_div_bounds [of 86400000 "now - d"]
    int_div_ge_iff [of 60000 1 "now - d"] int_div_ge_iff [of 3600000 1 "now - d"]
    int_div_ge_iff [of 86400000 1 "now - d"]
  by (auto simp: formatDate_def Let_def)


theorem formatDate_bounds_witness:
  "formatDate (\<lambda>_. 2026) 7500000 (Some 0) = DHours 2 \<and> 3600000 * 2 \<le> (7500000::int)
   \<and> formatDate (\<lambda>_. 2026) 125000 (Some 0) = DMinutes 2"
  using formatDate_bounds [of "\<lambda>_. 2026" 7500000 0 2 2 2]
  by (simp add: formatDate_def)

lemma take_slice: "i \<le> j \<Longrightarrow> take i xs @ slice i j xs = take j xs"
  by (metis le_add_diff_inverse slice_def take_add)

lemma slice_prefix: "j \<le> length xs \<Longrightarrow> slice i j (take j xs @ ys) = slice i j xs"
  by (simp add: slice_def drop_take)

lemma apply_facet_prefix:
  assumes "byteStart f < byteEnd f" and "byteEnd f \<le> length txt"
  shows "apply_facet (take (byteEnd f) txt @ rest) f =
           take (byteStart f) txt
           @ (case facet_markup (features f) (slice (byteStart f) (byteEnd f) txt) of
                None \<Rightarrow> slice (byteStart f) (byteEnd f) txt
              | Some m \<Rightarrow> m)
           @ rest"
proof -
  have t: "take (byteStart f) (take (byteEnd f) txt @ rest) = take (byteStart f) txt"
    using assms by simp
  have d: "drop (byteEnd f) (take (byteEnd f) txt @ rest) = rest"
    using assms by simp
  have e: "take (byteEnd f) txt = take (byteStart f) txt @ slice (byteStart f) (byteEnd f) txt"
    using assms by (simp add: take_slice)
  show ?thesis
    using assms
    by (simp add: apply_facet_def Let_def t d slice_prefix split: option.split) (simp add: e)
qed

lemma foldr_apply_facet:
  "facets_ok (length txt) i fs \<Longrightarrow>
     foldr (\<lambda>f t. apply_facet t f) fs txt = take i txt @ splice_from i txt fs"
proof (induction fs arbitrary: i)
  case Nil
  then show ?case by simp
next
  case (Cons f fs)
  then have ok: "i \<le> byteStart f" "byteStart f < byteEnd f" "byteEnd f \<le> length txt"
      and IH: "foldr (\<lambda>f t. apply_facet t f) fs txt = take (byteEnd f) txt @ splice_from (byteEnd f) txt fs"
    by simp_all
  have "take (byteStart f) txt = take i txt @ slice i (byteStart f) txt"
    using ok(1) by (simp add: take_slice)
  then show ?case
    using ok by (simp add: IH apply_facet_prefix)
qed

lemma facets_ok_starts: "facets_ok n i fs \<Longrightarrow> f \<in> set fs \<Longrightarrow> i \<le> byteStart f"
  by (induction n i fs rule: facets_ok.induct) fastforce+

lemma facets_ok_distinct: "facets_ok n i fs \<Longrightarrow> distinct (map byteStart fs)"
proof (induction n i fs rule: facets_ok.induct)
  case (2 n i f fs)
  then show ?case using facets_ok_starts [of n "byteEnd f" fs] by fastforce
qed simp

lemma facets_ok_sorted: "facets_ok n i fs \<Longrightarrow> sorted (map byteStart fs)"
proof (induction n i fs rule: facets_ok.induct)
  case (2 n i f fs)
  then show ?case using facets_ok_starts [of n "byteEnd f" fs] by fastforce
qed simp

lemma filter_key_distinct:
  "distinct (map g xs) \<Longrightarrow> k \<in> set xs \<Longrightarrow> filter (\<lambda>x. g k = g x) xs = [k]"
  by (induction xs) (auto simp: filter_empty_conv image_iff)

lemma sort_desc_rev:
  assumes "distinct (map g xs)"
  shows "sort_key (\<lambda>x. - int (g x)) xs = rev (sort_key g xs)"
proof (rule properties_for_sort_key)
  have ds: "distinct (map g (rev (sort_key g xs)))"
    using assms by (metis mset_map mset_rev mset_sort mset_eq_imp_distinct_iff)
  show "mset (rev (sort_key g xs)) = mset xs" by simp
  fix k
  assume k: "k \<in> set (rev (sort_key g xs))"
  then have "k \<in> set xs" by simp
  then show "filter (\<lambda>x. - int (g k) = - int (g x)) (rev (sort_key g xs)) =
             filter (\<lambda>x. - int (g k) = - int (g x)) xs"
    using filter_key_distinct [OF ds k] filter_key_distinct [OF assms] by simp
next
  have "sorted (map g (sort_key g xs))" by (rule sorted_sort_key)
  then show "sorted (map (\<lambda>x. - int (g x)) (rev (sort_key g xs)))"
    by (simp add: rev_map [symmetric] sorted_wrt_rev sorted_wrt_map sorted_map)
qed

text \<open>
  C13: Facets. When the facets, ordered by start, are non-empty, disjoint and inside the
  text, the descending-order rewriting of \<open>formatPostText\<close> equals splicing each
  facet's markup into the original text in one pass: processing from the end keeps the
  earlier offsets valid.
\<close>

theorem formatPostText_splices:
  assumes "facets_ok (length txt) 0 (sort_key byteStart fs)" and "fs \<noteq> []"
  shows "formatPostText linkify txt (Some fs) = br_newlines (splice_from 0 txt (sort_key byteStart fs))"
proof -
  have "distinct (map byteStart fs)"
    using facets_ok_distinct [OF assms(1)]
    by (metis mset_map mset_sort mset_eq_imp_distinct_iff)
  then have "foldl apply_facet txt (sort_key (\<lambda>f. - int (byteStart f)) fs) =
               foldr (\<lambda>f t. apply_facet t f) (sort_key byteStart fs) txt"
    by (simp add: sort_desc_rev foldr_conv_foldl)
  also have "\<dots> = splice_from 0 txt (sort_key byteStart fs)"
    using foldr_apply_facet [OF assms(1)] by simp
  finally show ?thesis
    using assms(2) by (cases fs) (simp_all add: formatPostText_def)
qed

theorem formatPostText_splices_witness:
  "formatPostText id ''hi @b c.io'' (Some [example_facet 6 10 FACET_LINK (Some ''https://c.io'') None,
                                         example_facet 3 5 FACET_MENTION None (Some ''did:b'')]) =
   ''hi <a href=\"https://bsky.app/profile/did:b\" target=\"_blank\" rel=\"noopener noreferrer\">@b</a> ''
   @ ''<a href=\"https://c.io\" target=\"_blank\" rel=\"noopener noreferrer\">c.io</a>''"
  using formatPostText_splices [of "''hi @b c.io''" "[example_facet 6 10 FACET_LINK (Some ''https://c.io'') None,
      example_facet 3 5 FACET_MENTION None (Some ''did:b'')]" id]
  by (simp add: example_facet_def FACET_LINK_def FACET_MENTION_def slice_def anchor_def br_newlines_def)

end
