(* ===== verification/Thread_Filter.thy ===== *)
theory Thread_Filter
  imports Bsky_Types
begin

text \<open>
  The thread filter of \<open>src/utils/bluesky.ts\<close>: \<open>filterPostsForSelfOnlyThreads\<close>
  (lines 479--518) and the ancestor walk \<open>isReplyInSelfOnlyThread\<close> (lines 523--568).
  The walk's \<open>while (currentPost)\<close> loop issues one \<open>getPostThread\<close> request per
  step and has no depth bound, so it is a \<open>partial_function (option)\<close>: \<open>None\<close> is a
  walk that never returns. Every exit of the loop is a branch: a foreign author, a root,
  a failed request or a body without \<open>thread\<close> (caught, \<open>false\<close>), and a thread view
  without \<open>post\<close>, which ends the loop and falls through to the final check.
  The inductive predicates give the walk its specification: \<open>self_chain\<close> (the chain
  of parents is the account's own), \<open>reaches\<close> (following successful lookups through
  the account's own posts) and \<open>chain_ends\<close> (the walk meets a stopping point).
\<close>

definition verdict :: "did set \<Rightarrow> did \<Rightarrow> bool" where
  "verdict checkedAuthors userDid \<longleftrightarrow> card checkedAuthors = 1 \<and> userDid \<in> checkedAuthors"

partial_function (option) selfOnlyWalk :: "api \<Rightarrow> did \<Rightarrow> did set \<Rightarrow> post \<Rightarrow> bool option" where
  "selfOnlyWalk a userDid checkedAuthors currentPost =
     (if did (post_author currentPost) \<noteq> userDid then Some False
      else (case rec_reply (post_record currentPost) of
              None \<Rightarrow> Some (verdict (insert (did (post_author currentPost)) checkedAuthors) userDid)
            | Some r \<Rightarrow>
                (case getPostThread a (parent_uri r) of
                   HOk (ThreadPost p) \<Rightarrow>
                     selfOnlyWalk a userDid (insert (did (post_author currentPost)) checkedAuthors) p
                 | HOk ThreadNoPost \<Rightarrow>
                     Some (verdict (insert (did (post_author currentPost)) checkedAuthors) userDid)
                 | HOk ThreadMalformed \<Rightarrow> Some False
                 | HStatus _ \<Rightarrow> Some False
                 | HNetErr \<Rightarrow> Some False)))"

definition isReplyInSelfOnlyThread :: "api \<Rightarrow> post \<Rightarrow> did \<Rightarrow> bool option" where
  "isReplyInSelfOnlyThread a p userDid = selfOnlyWalk a userDid {} p"

definition REASON_REPOST :: string where "REASON_REPOST = ''app.bsky.feed.defs#reasonRepost''"
definition REPOST_RECORD :: string where "REPOST_RECORD = ''app.bsky.feed.repost''"

fun is_repost_reason :: "reason option \<Rightarrow> bool" where
  "is_repost_reason None = False"
| "is_repost_reason (Some r) = (reason_type r = REASON_REPOST)"

fun filterPostsForSelfOnlyThreads :: "api \<Rightarrow> feed_item list \<Rightarrow> did \<Rightarrow> feed_item list option" where
  "filterPostsForSelfOnlyThreads a [] userDid = Some []"
| "filterPostsForSelfOnlyThreads a (x # xs) userDid =
     (if is_repost_reason (reason x) then filterPostsForSelfOnlyThreads a xs userDid
      else if rec_type (post_record (post x)) = Some REPOST_RECORD
        then filterPostsForSelfOnlyThreads a xs userDid
      else if rec_text (post_record (post x)) = None
        then filterPostsForSelfOnlyThreads a xs userDid
      else if rec_reply (post_record (post x)) = None
        then map_option (Cons x) (filterPostsForSelfOnlyThreads a xs userDid)
      else (case isReplyInSelfOnlyThread a (post x) userDid of
              None \<Rightarrow> None
            | Some True \<Rightarrow> map_option (Cons x) (filterPostsForSelfOnlyThreads a xs userDid)
            | Some False \<Rightarrow> filterPostsForSelfOnlyThreads a xs userDid))"

subsection \<open>Specification of the walk\<close>

inductive self_chain :: "api \<Rightarrow> did \<Rightarrow> post \<Rightarrow> bool" for a u where
  root: "did (post_author p) = u \<Longrightarrow> rec_reply (post_record p) = None \<Longrightarrow> self_chain a u p"
| vanished: "did (post_author p) = u \<Longrightarrow> rec_reply (post_record p) = Some r \<Longrightarrow>
     getPostThread a (parent_uri r) = HOk ThreadNoPost \<Longrightarrow> self_chain a u p"
| parent: "did (post_author p) = u \<Longrightarrow> rec_reply (post_record p) = Some r \<Longrightarrow>
     getPostThread a (parent_uri r) = HOk (ThreadPost q) \<Longrightarrow> self_chain a u q \<Longrightarrow> self_chain a u p"

inductive reaches :: "api \<Rightarrow> did \<Rightarrow> post \<Rightarrow> post \<Rightarrow> bool" for a u where
  here: "reaches a u p p"
| up: "did (post_author p) = u \<Longrightarrow> rec_reply (post_record p) = Some r \<Longrightarrow>
     getPostThread a (parent_uri r) = HOk (ThreadPost q) \<Longrightarrow> reaches a u q t \<Longrightarrow> reaches a u p t"

inductive chain_ends :: "api \<Rightarrow> did \<Rightarrow> post \<Rightarrow> bool" for a u where
  foreign: "did (post_author p) \<noteq> u \<Longrightarrow> chain_ends a u p"
| at_root: "rec_reply (post_record p) = None \<Longrightarrow> chain_ends a u p"
| lookup_stops: "rec_reply (post_record p) = Some r \<Longrightarrow>
     (\<And>q. getPostThread a (parent_uri r) \<noteq> HOk (ThreadPost q)) \<Longrightarrow> chain_ends a u p"
| ascend: "rec_reply (post_record p) = Some r \<Longrightarrow>
     getPostThread a (parent_uri r) = HOk (ThreadPost q) \<Longrightarrow> chain_ends a u q \<Longrightarrow> chain_ends a u p"

text \<open>The responses the code treats as a failed lookup (it returns \<open>false\<close>).\<close>

fun lookup_fails :: "thread_view http \<Rightarrow> bool" where
  "lookup_fails (HOk (ThreadPost _)) = False"
| "lookup_fails (HOk ThreadNoPost) = False"
| "lookup_fails (HOk ThreadMalformed) = True"
| "lookup_fails (HStatus _) = True"
| "lookup_fails HNetErr = True"

text \<open>An API that answers only thread requests, and a chain \<open>p1 \<leftarrow> p2 \<leftarrow> p3\<close> of the account's posts.\<close>

definition threads_api :: "(uri \<Rightarrow> thread_view http) \<Rightarrow> api" where
  "threads_api f = \<lparr>resolveHandle = (\<lambda>_. HStatus 404), getAuthorFeed = (\<lambda>_ _ _. HStatus 404),
     getPostThread = f, getProfile = (\<lambda>_. HStatus 404)\<rparr>"

definition chain_api :: api where
  "chain_api = threads_api (\<lambda>x. if x = ''p1'' then HOk (ThreadPost (example_post ''p1'' ''did:me'' None 1))
                               else if x = ''p2'' then HOk (ThreadPost (example_post ''p2'' ''did:me'' (Some ''p1'') 2))
                               else HStatus 404)"

subsection \<open>Lemmas on the walk\<close>

lemma chain_api_simps [simp]:
  "getPostThread chain_api ''p1'' = HOk (ThreadPost (example_post ''p1'' ''did:me'' None 1))"
  "getPostThread chain_api ''p2'' = HOk (ThreadPost (example_post ''p2'' ''did:me'' (Some ''p1'') 2))"
  by (simp_all add: chain_api_def threads_api_def)

lemma verdict_self [simp]:
  assumes "C \<subseteq> {u}"
  shows "verdict (insert u C) u"
proof -
  from assms have eq: "insert u C = {u}" by auto
  show ?thesis unfolding verdict_def by (subst eq) simp
qed

lemma walk_self_chain: "self_chain a u p \<Longrightarrow> C \<subseteq> {u} \<Longrightarrow> selfOnlyWalk a u C p = Some True"
proof (induction arbitrary: C rule: self_chain.induct)
  case (root p)
  then show ?case by (simp add: selfOnlyWalk.simps)
next
  case (vanished p r)
  then show ?case by (simp add: selfOnlyWalk.simps)
next
  case (parent p r q)
  then have "selfOnlyWalk a u (insert u C) q = Some True" by simp
  with parent.hyps show ?case by (simp add: selfOnlyWalk.simps)
qed

lemma walk_accepts_self_chain:
  assumes "selfOnlyWalk a u C p = Some b"
  shows "b \<longrightarrow> self_chain a u p"
  by (rule selfOnlyWalk.raw_induct [where P = "\<lambda>a u C p b. b \<longrightarrow> self_chain a u p", OF _ assms])
    (fastforce split: if_splits option.splits http.splits thread_view.splits intro: self_chain.intros)

lemma walk_result:
  assumes "selfOnlyWalk a u {} p = Some b"
  shows "b = self_chain a u p"
proof
  assume "b" with assms show "self_chain a u p" using walk_accepts_self_chain by blast
next
  assume "self_chain a u p"
  then have "selfOnlyWalk a u {} p = Some True" by (rule walk_self_chain) simp
  with assms show "b" by simp
qed

lemma selfOnlyWalk_terminates:
  "chain_ends a u p \<Longrightarrow> \<exists>b. selfOnlyWalk a u C p = Some b"
proof (induction arbitrary: C rule: chain_ends.induct)
  case (lookup_stops p r)
  then show ?case
    by (subst selfOnlyWalk.simps) (auto split: http.split thread_view.split)
next
  case (ascend p r q)
  then show ?case by (subst selfOnlyWalk.simps) auto
qed (subst selfOnlyWalk.simps, auto)+

text \<open>
  A post that is its own parent makes the walk run forever: fixpoint induction with the
  admissible predicate "never returns a value at this argument".
\<close>

lemma walk_diverges:
  assumes "did (post_author p) = u" "rec_reply (post_record p) = Some r"
    "getPostThread a (parent_uri r) = HOk (ThreadPost p)"
  shows "selfOnlyWalk a u C p = None"
proof -
  have "\<forall>C y. selfOnlyWalk a u C p \<noteq> Some y"
  proof (induction rule: selfOnlyWalk.fixp_induct)
    case 1
    have adm: "option.admissible (\<lambda>F. \<forall>x y. F x = Some y \<longrightarrow> (\<forall>C. x \<noteq> (((a, u), C), p)))"
      by (rule option_admissible)
    have eq: "(\<lambda>F. \<forall>x y. F x = Some y \<longrightarrow> (\<forall>C. x \<noteq> (((a, u), C), p))) =
        (\<lambda>F. \<forall>C y. curry (curry (curry F)) a u C p \<noteq> Some y)"
      by (rule ext) (auto, metis not_None_eq)
    show ?case using adm unfolding eq .
  next
    case 2
    then show ?case by simp
  next
    case (3 f)
    then show ?case using assms by simp
  qed
  then show ?thesis by (cases "selfOnlyWalk a u C p") auto
qed

subsection \<open>Properties of the walk\<close>

text \<open>
  C1: The walk implements its specification: \<open>isReplyInSelfOnlyThread\<close> answers
  \<open>true\<close> exactly for a post whose chain of parents, as the API returns them, is
  authored by the account up to a root or up to a parent view without a post.
\<close>

theorem isReplyInSelfOnlyThread_accepts_iff:
  "isReplyInSelfOnlyThread a p u = Some True \<longleftrightarrow> self_chain a u p"
  by (auto simp: isReplyInSelfOnlyThread_def walk_self_chain dest: walk_result)

theorem isReplyInSelfOnlyThread_accepts_iff_witness:
  "isReplyInSelfOnlyThread chain_api (example_post ''p3'' ''did:me'' (Some ''p2'') 3) ''did:me'' = Some True"
proof -
  have "self_chain chain_api ''did:me'' (example_post ''p3'' ''did:me'' (Some ''p2'') 3)"
    by (rule self_chain.parent, simp, simp, simp, rule self_chain.parent, simp, simp, simp,
        rule self_chain.root, simp_all)
  then show ?thesis using isReplyInSelfOnlyThread_accepts_iff by blast
qed

text \<open>
  C20: Fail-closed lookups. If the walk reaches, through the account's own posts, a post
  whose parent request fails (non-2xx status, network error, or a body without
  \<open>thread\<close>), the reply is excluded, although every author seen was the account.
\<close>

theorem isReplyInSelfOnlyThread_fail_closed:
  assumes "reaches a u p q" and "did (post_author q) = u" and "rec_reply (post_record q) = Some r"
    and "lookup_fails (getPostThread a (parent_uri r))"
  shows "isReplyInSelfOnlyThread a p u = Some False"
proof -
  have "selfOnlyWalk a u C p = Some False" for C
    using assms
  proof (induction arbitrary: C rule: reaches.induct)
    case (here p)
    then show ?case
      by (subst selfOnlyWalk.simps)
        (cases "getPostThread a (parent_uri r)" rule: lookup_fails.cases, simp_all)
  next
    case (up p r' q' t)
    then show ?case by (subst selfOnlyWalk.simps) simp
  qed
  then show ?thesis by (simp add: isReplyInSelfOnlyThread_def)
qed

theorem isReplyInSelfOnlyThread_fail_closed_witness:
  "isReplyInSelfOnlyThread
     (threads_api (\<lambda>x. if x = ''p2'' then HOk (ThreadPost (example_post ''p2'' ''did:me'' (Some ''p1'') 2))
                       else HStatus 500))
     (example_post ''p3'' ''did:me'' (Some ''p2'') 3) ''did:me'' = Some False"
proof -
  let ?a = "threads_api (\<lambda>x. if x = ''p2'' then HOk (ThreadPost (example_post ''p2'' ''did:me'' (Some ''p1'') 2))
                              else HStatus 500)"
  have "reaches ?a ''did:me'' (example_post ''p3'' ''did:me'' (Some ''p2'') 3)
          (example_post ''p2'' ''did:me'' (Some ''p1'') 2)"
    by (rule reaches.up, simp, simp, simp add: threads_api_def, rule reaches.here)
  then show ?thesis
    by (rule isReplyInSelfOnlyThread_fail_closed) (simp add: threads_api_def)+
qed

text \<open>
  A foreign author anywhere on the chain excludes the reply: once the walk reaches a
  post by another account, the answer is \<open>false\<close>.
\<close>

theorem isReplyInSelfOnlyThread_foreign:
  assumes "reaches a u p q" and "did (post_author q) \<noteq> u"
  shows "isReplyInSelfOnlyThread a p u = Some False"
proof -
  have "selfOnlyWalk a u C p = Some False" for C
    using assms
    by (induction arbitrary: C rule: reaches.induct) (subst selfOnlyWalk.simps, simp)+
  then show ?thesis by (simp add: isReplyInSelfOnlyThread_def)
qed

theorem isReplyInSelfOnlyThread_foreign_witness:
  "isReplyInSelfOnlyThread (threads_api (\<lambda>_. HOk (ThreadPost (example_post ''p1'' ''did:other'' None 1))))
     (example_post ''p2'' ''did:me'' (Some ''p1'') 2) ''did:me'' = Some False"
proof -
  let ?a = "threads_api (\<lambda>_. HOk (ThreadPost (example_post ''p1'' ''did:other'' None 1)))"
  have "reaches ?a ''did:me'' (example_post ''p2'' ''did:me'' (Some ''p1'') 2) (example_post ''p1'' ''did:other'' None 1)"
    by (rule reaches.up, simp, simp, simp add: threads_api_def, rule reaches.here)
  then show ?thesis by (rule isReplyInSelfOnlyThread_foreign) simp
qed

text \<open>
  C9: Fail-open on a vanished parent. When the parent request succeeds but the thread view
  carries no post (a blocked or not-found view), \<open>currentPost\<close> becomes undefined, the
  loop ends, and the final check accepts the reply, where the specification requires
  the lookup that "returns nothing" to exclude it.
\<close>

theorem isReplyInSelfOnlyThread_fail_open:
  assumes "did (post_author p) = u" and "rec_reply (post_record p) = Some r"
    and "getPostThread a (parent_uri r) = HOk ThreadNoPost"
  shows "isReplyInSelfOnlyThread a p u = Some True"
  using assms by (simp add: isReplyInSelfOnlyThread_def selfOnlyWalk.simps)

theorem isReplyInSelfOnlyThread_fail_open_witness:
  "isReplyInSelfOnlyThread (threads_api (\<lambda>_. HOk ThreadNoPost))
     (example_post ''p2'' ''did:me'' (Some ''p1'') 2) ''did:me'' = Some True"
  by (rule isReplyInSelfOnlyThread_fail_open) (simp add: threads_api_def)+

text \<open>
  C21: The walk returns whenever the chain of parents meets a stopping point (a foreign
  author, a root, or a lookup that yields no post).
\<close>

theorem isReplyInSelfOnlyThread_terminates:
  assumes "chain_ends a u p"
  shows "\<exists>b. isReplyInSelfOnlyThread a p u = Some b"
  using selfOnlyWalk_terminates [OF assms] by (simp add: isReplyInSelfOnlyThread_def)

theorem isReplyInSelfOnlyThread_terminates_witness:
  "\<exists>b. isReplyInSelfOnlyThread chain_api (example_post ''p3'' ''did:me'' (Some ''p2'') 3) ''did:me'' = Some b"
proof -
  have "chain_ends chain_api ''did:me'' (example_post ''p3'' ''did:me'' (Some ''p2'') 3)"
    by (rule chain_ends.ascend, simp, simp, rule chain_ends.ascend, simp, simp,
        rule chain_ends.at_root, simp)
  then show ?thesis by (rule isReplyInSelfOnlyThread_terminates)
qed

text \<open>
  C22: No depth bound. A reply that the API reports as its own parent keeps the walk
  requesting the same post forever: the walk never returns, where the specification asks
  for a maximum traversal depth and a fail-closed answer.
\<close>

theorem isReplyInSelfOnlyThread_cycle_diverges:
  assumes "did (post_author p) = u" "rec_reply (post_record p) = Some r"
    "getPostThread a (parent_uri r) = HOk (ThreadPost p)"
  shows "isReplyInSelfOnlyThread a p u = None"
  using walk_diverges [OF assms] by (simp add: isReplyInSelfOnlyThread_def)

theorem isReplyInSelfOnlyThread_cycle_diverges_witness:
  "isReplyInSelfOnlyThread (threads_api (\<lambda>_. HOk (ThreadPost (example_post ''loop'' ''did:me'' (Some ''loop'') 1))))
     (example_post ''loop'' ''did:me'' (Some ''loop'') 1) ''did:me'' = None"
  by (rule isReplyInSelfOnlyThread_cycle_diverges) (simp add: threads_api_def)+

subsection \<open>Properties of the filter\<close>

text \<open>
  C2: The filter loop implements a list filter: when it returns, it keeps, in feed
  order, exactly the entries that are no repost marker, no repost record, carry a text,
  and are either no reply or a reply whose chain is the account's own.
\<close>

theorem filterPosts_refines:
  assumes "filterPostsForSelfOnlyThreads a items u = Some ys"
  shows "ys = filter (\<lambda>x. \<not> is_repost_reason (reason x)
                  \<and> rec_type (post_record (post x)) \<noteq> Some REPOST_RECORD
                  \<and> rec_text (post_record (post x)) \<noteq> None
                  \<and> (rec_reply (post_record (post x)) = None \<or> self_chain a u (post x))) items"
  using assms
proof (induction items arbitrary: ys)
  case (Cons x xs)
  then show ?case
    by (auto simp: isReplyInSelfOnlyThread_def dest: walk_result
             split: if_splits option.splits bool.splits)
qed simp

theorem filterPosts_refines_witness:
  "[example_item ''p3'' ''did:me'' (Some ''p2'') 3] =
   filter (\<lambda>x. \<not> is_repost_reason (reason x)
                  \<and> rec_type (post_record (post x)) \<noteq> Some REPOST_RECORD
                  \<and> rec_text (post_record (post x)) \<noteq> None
                  \<and> (rec_reply (post_record (post x)) = None \<or> self_chain chain_api ''did:me'' (post x)))
     [example_item ''p3'' ''did:me'' (Some ''p2'') 3,
      \<lparr>post = example_post ''r'' ''did:x'' None 0,
       reason = Some \<lparr>reason_type = REASON_REPOST, reason_by = None, reason_indexedAt = None\<rparr>\<rparr>,
      example_item ''q'' ''did:me'' (Some ''zz'') 4]"
proof -
  have "filterPostsForSelfOnlyThreads chain_api
     [example_item ''p3'' ''did:me'' (Some ''p2'') 3,
      \<lparr>post = example_post ''r'' ''did:x'' None 0,
       reason = Some \<lparr>reason_type = REASON_REPOST, reason_by = None, reason_indexedAt = None\<rparr>\<rparr>,
      example_item ''q'' ''did:me'' (Some ''zz'') 4] ''did:me''
     = Some [example_item ''p3'' ''did:me'' (Some ''p2'') 3]"
    by (simp add: isReplyInSelfOnlyThread_def selfOnlyWalk.simps verdict_def chain_api_def
        threads_api_def REPOST_RECORD_def REASON_REPOST_def)
  then show ?thesis by (rule filterPosts_refines)
qed

text \<open>
  The filter returns whenever the ancestor walk of every entry meets a stopping point.
\<close>

theorem filterPosts_terminates:
  assumes "\<forall>x \<in> set items. chain_ends a u (post x)"
  shows "\<exists>ys. filterPostsForSelfOnlyThreads a items u = Some ys"
  using assms
proof (induction items)
  case (Cons x xs)
  then obtain ys where "filterPostsForSelfOnlyThreads a xs u = Some ys" by auto
  moreover obtain b where "isReplyInSelfOnlyThread a (post x) u = Some b"
    using Cons.prems selfOnlyWalk_terminates [of a u "post x" "{}"]
    by (auto simp: isReplyInSelfOnlyThread_def)
  ultimately show ?case by (cases b) auto
qed simp

theorem filterPosts_terminates_witness:
  "\<exists>ys. filterPostsForSelfOnlyThreads chain_api
          [example_item ''p3'' ''did:me'' (Some ''p2'') 3, example_item ''p1'' ''did:me'' None 1] ''did:me'' = Some ys"
proof -
  have "chain_ends chain_api ''did:me'' (example_post ''p3'' ''did:me'' (Some ''p2'') 3)"
    by (rule chain_ends.ascend, simp, simp, rule chain_ends.ascend, simp, simp,
        rule chain_ends.at_root, simp)
  moreover have "chain_ends chain_api ''did:me'' (example_post ''p1'' ''did:me'' None 1)"
    by (rule chain_ends.at_root) simp
  ultimately show ?thesis by (intro filterPosts_terminates) simp
qed

text \<open>
  A repost marker never survives the filter, whatever the post it carries.
\<close>

theorem filterPosts_drops_reposts:
  assumes "filterPostsForSelfOnlyThreads a items u = Some ys" and "x \<in> set ys"
  shows "\<not> is_repost_reason (reason x)"
  using assms
  by (induction items arbitrary: ys) (auto split: if_splits option.splits bool.splits)

theorem filterPosts_drops_reposts_witness:
  "\<not> is_repost_reason (reason (example_item ''p1'' ''did:me'' None 1))"
proof -
  have "filterPostsForSelfOnlyThreads chain_api
     [\<lparr>post = example_post ''p1'' ''did:me'' None 1,
       reason = Some \<lparr>reason_type = REASON_REPOST, reason_by = None, reason_indexedAt = None\<rparr>\<rparr>,
      example_item ''p1'' ''did:me'' None 1] ''did:me''
     = Some [example_item ''p1'' ''did:me'' None 1]"
    by (simp add: REPOST_RECORD_def REASON_REPOST_def)
  then show ?thesis by (rule filterPosts_drops_reposts) simp
qed

end
