(* ===== verification/Thread_Builder.thy ===== *)
theory Thread_Builder
  imports Bsky_Types
begin

text \<open>
  The thread builder \<open>groupPostsIntoThreads\<close> of \<open>src/utils/bluesky.ts\<close>
  (lines 573--636). The first pass indexes the page by URI (\<open>postMap\<close>, a JavaScript
  \<open>Map\<close> where a later entry overwrites an earlier one); the second pass pushes each
  entry's node onto its parent's children when the parent URI is in the page and onto the
  roots otherwise. The resulting object graph is unfolded from the roots into
  \<open>thread_item\<close> trees by \<open>build_node\<close>, whose fuel is the page length: the lemma
  \<open>root_no_long_descent\<close> shows that no chain of child links from a root is that long
  when URIs are distinct, so the fuel never runs out (\<open>groupPostsIntoThreads_fuel_enough\<close>).
  Roots are sorted newest first and every node's children oldest first with the stable
  \<open>Array.prototype.sort\<close>, i.e. \<open>sort_key\<close> (the comparator \<open>b - a\<close> is the key
  \<open>- indexedAt\<close>).
\<close>

definition postMap :: "feed_item list \<Rightarrow> (uri \<rightharpoonup> feed_item)" where
  "postMap posts = fold (\<lambda>x m. m(item_uri x \<mapsto> x)) posts Map.empty"

definition parent_in_page :: "(uri \<rightharpoonup> feed_item) \<Rightarrow> feed_item \<Rightarrow> uri option" where
  "parent_in_page m x =
     (case rec_reply (post_record (post x)) of
        None \<Rightarrow> None
      | Some r \<Rightarrow> (case m (parent_uri r) of Some _ \<Rightarrow> Some (parent_uri r) | None \<Rightarrow> None))"

definition node_of :: "(uri \<rightharpoonup> feed_item) \<Rightarrow> feed_item \<Rightarrow> feed_item" where
  "node_of m x = (case m (item_uri x) of Some y \<Rightarrow> y | None \<Rightarrow> x)"

definition pushed_children :: "(uri \<rightharpoonup> feed_item) \<Rightarrow> feed_item list \<Rightarrow> uri \<Rightarrow> feed_item list" where
  "pushed_children m posts u = map (node_of m) (filter (\<lambda>x. parent_in_page m x = Some u) posts)"

definition threadRoots :: "(uri \<rightharpoonup> feed_item) \<Rightarrow> feed_item list \<Rightarrow> feed_item list" where
  "threadRoots m posts = map (node_of m) (filter (\<lambda>x. parent_in_page m x = None) posts)"

fun build_node :: "nat \<Rightarrow> (uri \<rightharpoonup> feed_item) \<Rightarrow> feed_item list \<Rightarrow> bool \<Rightarrow> feed_item \<Rightarrow> thread_item" where
  "build_node 0 m posts r x = ThreadItem x [] r"
| "build_node (Suc n) m posts r x =
     ThreadItem x (map (build_node n m posts False) (pushed_children m posts (item_uri x))) r"

fun sortThreadChildren :: "thread_item \<Rightarrow> thread_item" where
  "sortThreadChildren (ThreadItem x cs r) =
     ThreadItem x (map sortThreadChildren (sort_key thread_time cs)) r"

definition groupPostsIntoThreads_fuel :: "nat \<Rightarrow> feed_item list \<Rightarrow> thread_item list" where
  "groupPostsIntoThreads_fuel n posts =
     (let m = postMap posts;
          roots = map (build_node n m posts True) (threadRoots m posts)
      in map sortThreadChildren (sort_key (\<lambda>t. - thread_time t) roots))"

definition groupPostsIntoThreads :: "feed_item list \<Rightarrow> thread_item list" where
  "groupPostsIntoThreads posts = groupPostsIntoThreads_fuel (length posts) posts"

subsection \<open>Specification vocabulary\<close>

fun children_sorted :: "thread_item \<Rightarrow> bool" where
  "children_sorted (ThreadItem x cs r) = (sorted (map thread_time cs) \<and> list_all children_sorted cs)"

definition reply_parent :: "feed_item \<Rightarrow> uri option" where
  "reply_parent x = map_option parent_uri (rec_reply (post_record (post x)))"

inductive descends :: "(uri \<rightharpoonup> feed_item) \<Rightarrow> feed_item list \<Rightarrow> nat \<Rightarrow> feed_item \<Rightarrow> bool"
  for m posts where
  zero: "descends m posts 0 x"
| down: "c \<in> set (pushed_children m posts (item_uri x)) \<Longrightarrow> descends m posts n c \<Longrightarrow>
     descends m posts (Suc n) x"

fun is_down_path :: "(uri \<rightharpoonup> feed_item) \<Rightarrow> feed_item list \<Rightarrow> bool" where
  "is_down_path m (a # b # rest) = (parent_in_page m b = Some (item_uri a) \<and> is_down_path m (b # rest))"
| "is_down_path m _ = True"

fun subtrees :: "thread_item \<Rightarrow> thread_item list" where
  "subtrees (ThreadItem x cs r) = ThreadItem x cs r # concat (map subtrees cs)"


text \<open>The two examples of the specification's section 8.\<close>

definition spec_page :: "feed_item list" where
  "spec_page = [example_item ''R'' ''did:me'' None 10, example_item ''C1'' ''did:me'' (Some ''R'') 20,
                example_item ''C2'' ''did:me'' (Some ''R'') 15]"

text \<open>A page with a cycle of two replies and an independent post.\<close>

definition cycle_page :: "feed_item list" where
  "cycle_page = [example_item ''A'' ''did:me'' (Some ''B'') 1, example_item ''B'' ''did:me'' (Some ''A'') 2,
                 example_item ''R'' ''did:me'' None 3]"

subsection \<open>Lemmas\<close>

lemma groupPostsIntoThreads_unfold:
  "groupPostsIntoThreads posts =
     map sortThreadChildren (sort_key (\<lambda>t. - thread_time t)
        (map (build_node (length posts) (postMap posts) posts True) (threadRoots (postMap posts) posts)))"
  by (simp add: groupPostsIntoThreads_def groupPostsIntoThreads_fuel_def Let_def)


lemma item_sortThreadChildren [simp]: "item (sortThreadChildren t) = item t"
  by (cases t) simp

lemma thread_time_sortThreadChildren [simp]: "thread_time (sortThreadChildren t) = thread_time t"
  by (simp add: thread_time_def)

lemma item_build_node [simp]: "item (build_node n m posts r x) = x"
  by (cases n) simp_all

lemma isThreadRoot_build_node [simp]: "isThreadRoot (build_node n m posts r x) = r"
  by (cases n) simp_all

lemma thread_time_item: "thread_time t = indexedAt (post (item t))"
  by (simp add: thread_time_def)

lemma children_sorted_sortThreadChildren: "children_sorted (sortThreadChildren t)"
proof (induction t rule: sortThreadChildren.induct)
  case (1 x cs r)
  have "sorted (map thread_time (sort_key thread_time cs))" by simp
  then show ?case using "1.IH" by (simp add: comp_def list_all_iff)
qed

lemma map_item_group:
  "map item (groupPostsIntoThreads posts) =
     sort_key (\<lambda>x. - indexedAt (post x)) (threadRoots (postMap posts) posts)"
proof -
  let ?m = "postMap posts"
  let ?roots = "map (build_node (length posts) ?m posts True) (threadRoots ?m posts)"
  have "map item (groupPostsIntoThreads posts) = map item (sort_key (\<lambda>t. - thread_time t) ?roots)"
    by (simp add: groupPostsIntoThreads_unfold comp_def)
  also have "\<dots> = sort_key (\<lambda>x. - indexedAt (post x)) (map item ?roots)"
    unfolding thread_time_item by (rule map_sort_key)
  also have "map item ?roots = threadRoots ?m posts" by (simp add: comp_def)
  finally show ?thesis .
qed



lemma fold_postMap_other:
  "u \<notin> item_uri ` set xs \<Longrightarrow> fold (\<lambda>x m. m(item_uri x \<mapsto> x)) xs m0 u = m0 u"
  by (induction xs arbitrary: m0) auto

lemma fold_postMap_in:
  "distinct (map item_uri xs) \<Longrightarrow> x \<in> set xs \<Longrightarrow> fold (\<lambda>x m. m(item_uri x \<mapsto> x)) xs m0 (item_uri x) = Some x"
proof (induction xs arbitrary: m0)
  case (Cons y ys)
  show ?case
  proof (cases "x = y")
    case True
    with Cons.prems have "item_uri y \<notin> item_uri ` set ys" by auto
    then have "fold (\<lambda>x m. m(item_uri x \<mapsto> x)) ys (m0(item_uri y \<mapsto> y)) (item_uri y)
        = (m0(item_uri y \<mapsto> y)) (item_uri y)"
      by (rule fold_postMap_other)
    with True show ?thesis by (simp only: fold.simps o_apply fun_upd_same)
  next
    case False
    with Cons show ?thesis by simp
  qed
qed simp

lemma postMap_in:
  "distinct (map item_uri posts) \<Longrightarrow> x \<in> set posts \<Longrightarrow> postMap posts (item_uri x) = Some x"
  by (simp add: postMap_def fold_postMap_in)

lemma postMap_dom: "postMap posts u \<noteq> None \<longleftrightarrow> u \<in> item_uri ` set posts"
proof -
  have "fold (\<lambda>x m. m(item_uri x \<mapsto> x)) xs m0 u \<noteq> None \<longleftrightarrow> u \<in> item_uri ` set xs \<or> m0 u \<noteq> None" for xs m0
    by (induction xs arbitrary: m0) auto
  then show ?thesis by (simp add: postMap_def)
qed

lemma node_of_in:
  "distinct (map item_uri posts) \<Longrightarrow> x \<in> set posts \<Longrightarrow> node_of (postMap posts) x = x"
  by (simp add: node_of_def postMap_in)

lemma pushed_children_distinct:
  assumes "distinct (map item_uri posts)" and "u \<in> item_uri ` set posts"
  shows "pushed_children (postMap posts) posts u = filter (\<lambda>c. reply_parent c = Some u) posts"
proof -
  have "parent_in_page (postMap posts) c = Some u \<longleftrightarrow> reply_parent c = Some u" for c
    using assms(2) postMap_dom [of posts u]
    by (auto simp: parent_in_page_def reply_parent_def split: option.splits)
  moreover have "map (node_of (postMap posts)) (filter P posts) = filter P posts" for P
    using assms(1) by (intro map_idI) (simp add: node_of_in)
  ultimately show ?thesis by (simp add: pushed_children_def)
qed



lemma build_node_stable:
  "\<not> descends m posts n x \<Longrightarrow> build_node (n + k) m posts r x = build_node n m posts r x"
proof (induction n arbitrary: x r)
  case 0
  then show ?case by (simp add: descends.zero)
next
  case (Suc n)
  have "build_node (n + k) m posts False c = build_node n m posts False c"
    if "c \<in> set (pushed_children m posts (item_uri x))" for c
    using that Suc.prems by (intro Suc.IH) (auto intro: descends.down)
  then show ?case by simp
qed

lemma is_down_path_nth:
  "is_down_path m P \<Longrightarrow> Suc i < length P \<Longrightarrow> parent_in_page m (P ! Suc i) = Some (item_uri (P ! i))"
proof (induction m P arbitrary: i rule: is_down_path.induct)
  case (1 m a b rest)
  then show ?case by (cases i) auto
qed auto

lemma down_path_distinct:
  assumes path: "is_down_path m P" and top: "parent_in_page m (P ! 0) = None"
    and inj: "inj_on item_uri (set posts)" and sub: "set P \<subseteq> set posts"
  shows "distinct P"
proof -
  have "\<forall>j. i < j \<longrightarrow> j < length P \<longrightarrow> P ! i \<noteq> P ! j" for i
  proof (induction i)
    case 0
    show ?case
    proof (intro allI impI)
      fix j assume "0 < j" "j < length P"
      then obtain j' where j: "j = Suc j'" "Suc j' < length P" by (cases j) auto
      then have "parent_in_page m (P ! j) \<noteq> None" using is_down_path_nth [OF path j(2)] by simp
      with top show "P ! 0 \<noteq> P ! j" by auto
    qed
  next
    case (Suc i)
    show ?case
    proof (intro allI impI notI)
      fix j assume ij: "Suc i < j" "j < length P" and eq: "P ! Suc i = P ! j"
      then obtain j' where j: "j = Suc j'" by (cases j) auto
      have "parent_in_page m (P ! Suc i) = Some (item_uri (P ! i))"
        using ij by (intro is_down_path_nth [OF path]) simp
      moreover have "parent_in_page m (P ! Suc j') = Some (item_uri (P ! j'))"
        using ij j by (intro is_down_path_nth [OF path]) simp
      ultimately have "item_uri (P ! i) = item_uri (P ! j')" using eq j by simp
      moreover have "P ! i \<in> set posts" "P ! j' \<in> set posts"
        using ij j sub by (auto intro!: nth_mem [THEN subsetD [OF sub]])
      ultimately have "P ! i = P ! j'" using inj by (auto dest: inj_onD)
      with Suc.IH ij j show False by auto
    qed
  qed
  then show ?thesis by (auto simp: distinct_conv_nth) (metis linorder_neqE_nat)
qed

lemma pushed_children_in_posts:
  assumes "distinct (map item_uri posts)" and "c \<in> set (pushed_children (postMap posts) posts u)"
  shows "c \<in> set posts \<and> parent_in_page (postMap posts) c = Some u"
  using assms by (auto simp: pushed_children_def node_of_in)

lemma descends_path:
  assumes "descends (postMap posts) posts n x" and "distinct (map item_uri posts)" and "x \<in> set posts"
  shows "\<exists>P. length P = Suc n \<and> P ! 0 = x \<and> is_down_path (postMap posts) P \<and> set P \<subseteq> set posts"
  using assms
proof (induction rule: descends.induct)
  case (zero x)
  then show ?case by (intro exI [of _ "[x]"]) simp
next
  case (down c x n)
  then have c: "c \<in> set posts" "parent_in_page (postMap posts) c = Some (item_uri x)"
    using pushed_children_in_posts by blast+
  with down obtain P where P: "length P = Suc n" "P ! 0 = c" "is_down_path (postMap posts) P"
    "set P \<subseteq> set posts" by blast
  then obtain rest where "P = c # rest" by (cases P) auto
  with P c down.prems show ?case by (intro exI [of _ "x # P"]) simp
qed

lemma root_no_long_descent:
  assumes "distinct (map item_uri posts)" and "x \<in> set posts"
    and "parent_in_page (postMap posts) x = None"
  shows "\<not> descends (postMap posts) posts (length posts) x"
proof
  assume "descends (postMap posts) posts (length posts) x"
  then obtain P where P: "length P = Suc (length posts)" "P ! 0 = x"
    "is_down_path (postMap posts) P" "set P \<subseteq> set posts"
    using descends_path assms by blast
  have "inj_on item_uri (set posts)" using assms(1) by (simp add: distinct_map)
  then have "distinct P" using P assms(3) by (intro down_path_distinct) simp_all
  then have "length P \<le> card (set posts)"
    using P(4) by (metis card_mono distinct_card finite_set)
  also have "\<dots> \<le> length posts" by (rule card_length)
  finally show False using P(1) by simp
qed



lemma build_node_children:
  "\<not> descends m posts n x \<Longrightarrow> t \<in> set (subtrees (build_node n m posts r x)) \<Longrightarrow>
     map item (children t) = pushed_children m posts (item_uri (item t))"
proof (induction n arbitrary: x r t)
  case 0
  then show ?case by (simp add: descends.zero)
next
  case (Suc n)
  show ?case
  proof (cases "t = build_node (Suc n) m posts r x")
    case True
    then show ?thesis by (simp add: comp_def)
  next
    case False
    with Suc.prems obtain c where c: "c \<in> set (pushed_children m posts (item_uri x))"
      and t: "t \<in> set (subtrees (build_node n m posts False c))" by auto
    have "\<not> descends m posts n c" using Suc.prems(1) c by (auto intro: descends.down)
    then show ?thesis using t by (rule Suc.IH)
  qed
qed

lemma build_node_items:
  assumes "distinct (map item_uri posts)"
  shows "x \<in> set posts \<Longrightarrow> t \<in> set (subtrees (build_node n (postMap posts) posts r x)) \<Longrightarrow> item t \<in> set posts"
proof (induction n arbitrary: x r t)
  case (Suc n)
  show ?case
  proof (cases "t = build_node (Suc n) (postMap posts) posts r x")
    case True
    with Suc.prems show ?thesis by simp
  next
    case False
    with Suc.prems obtain c where c: "c \<in> set (pushed_children (postMap posts) posts (item_uri x))"
      and t: "t \<in> set (subtrees (build_node n (postMap posts) posts False c))" by auto
    from c have "c \<in> set posts" using pushed_children_in_posts [OF assms] by blast
    then show ?thesis using t by (rule Suc.IH)
  qed
qed simp

lemma subtrees_sortThreadChildren:
  "t' \<in> set (subtrees (sortThreadChildren t)) \<Longrightarrow> \<exists>s \<in> set (subtrees t). t' = sortThreadChildren s"
proof (induction t arbitrary: t' rule: sortThreadChildren.induct)
  case (1 x cs r)
  then show ?case by auto
qed

lemma children_sortThreadChildren:
  "map item (children (sortThreadChildren t)) = sort_key (\<lambda>x. indexedAt (post x)) (map item (children t))"
proof (cases t)
  case (ThreadItem x cs r)
  have "map item (map sortThreadChildren (sort_key thread_time cs)) = map item (sort_key thread_time cs)"
    by simp
  also have "\<dots> = sort_key (\<lambda>x. indexedAt (post x)) (map item cs)"
    unfolding thread_time_item by (rule map_sort_key)
  finally show ?thesis using ThreadItem by simp
qed

lemma threadRoots_in:
  assumes "distinct (map item_uri posts)" and "x \<in> set (threadRoots (postMap posts) posts)"
  shows "x \<in> set posts \<and> parent_in_page (postMap posts) x = None"
  using assms by (auto simp: threadRoots_def node_of_in)


lemma threadRoots_distinct:
  assumes "distinct (map item_uri posts)"
  shows "threadRoots (postMap posts) posts =
           filter (\<lambda>x. case reply_parent x of None \<Rightarrow> True | Some u \<Rightarrow> u \<notin> item_uri ` set posts) posts"
proof -
  have "parent_in_page (postMap posts) x = None \<longleftrightarrow>
          (case reply_parent x of None \<Rightarrow> True | Some u \<Rightarrow> u \<notin> item_uri ` set posts)" for x
    using postMap_dom [of posts] postMap_in [OF assms]
    by (force simp: parent_in_page_def reply_parent_def split: option.splits)
  moreover have "map (node_of (postMap posts)) (filter P posts) = filter P posts" for P
    using assms by (intro map_idI) (simp add: node_of_in)
  ultimately show ?thesis by (simp add: threadRoots_def)
qed

lemma spec_page_distinct [simp]: "distinct (map item_uri spec_page)"
  by (simp add: spec_page_def)

subsection \<open>Properties of the builder\<close>

text \<open>
  C3: Children attach at every depth. In a page with distinct URIs, every node of the
  built forest has as children exactly the page's entries that reply to it, oldest
  first (stable for equal timestamps).
\<close>

theorem group_children_attach:
  assumes "distinct (map item_uri posts)"
    and "t \<in> set (concat (map subtrees (groupPostsIntoThreads posts)))"
  shows "map item (children t) =
           sort_key (\<lambda>x. indexedAt (post x)) (filter (\<lambda>c. reply_parent c = Some (item_uri (item t))) posts)"
proof -
  let ?m = "postMap posts"
  obtain x where x: "x \<in> set (threadRoots ?m posts)"
    and t: "t \<in> set (subtrees (sortThreadChildren (build_node (length posts) ?m posts True x)))"
    using assms(2) by (auto simp: groupPostsIntoThreads_unfold)
  from x have xin: "x \<in> set posts" "parent_in_page ?m x = None"
    using threadRoots_in [OF assms(1)] by blast+
  obtain s where s: "s \<in> set (subtrees (build_node (length posts) ?m posts True x))"
    and ts: "t = sortThreadChildren s"
    using subtrees_sortThreadChildren [OF t] by blast
  have nd: "\<not> descends ?m posts (length posts) x"
    using root_no_long_descent [OF assms(1) xin] .
  have "map item (children s) = pushed_children ?m posts (item_uri (item s))"
    using build_node_children [OF nd s] .
  also have "\<dots> = filter (\<lambda>c. reply_parent c = Some (item_uri (item s))) posts"
    using build_node_items [OF assms(1) xin(1) s] by (intro pushed_children_distinct [OF assms(1)]) simp
  finally show ?thesis using ts by (simp add: children_sortThreadChildren)
qed

theorem group_children_attach_witness:
  "map item (children (hd (groupPostsIntoThreads spec_page))) =
     [example_item ''C2'' ''did:me'' (Some ''R'') 15, example_item ''C1'' ''did:me'' (Some ''R'') 20]"
proof -
  have g: "groupPostsIntoThreads spec_page =
     [ThreadItem (example_item ''R'' ''did:me'' None 10)
        [ThreadItem (example_item ''C2'' ''did:me'' (Some ''R'') 15) [] False,
         ThreadItem (example_item ''C1'' ''did:me'' (Some ''R'') 20) [] False] True]"
    by (simp add: spec_page_def groupPostsIntoThreads_unfold postMap_def threadRoots_def
        pushed_children_def parent_in_page_def node_of_def thread_time_def)
  have "hd (groupPostsIntoThreads spec_page) \<in> set (concat (map subtrees (groupPostsIntoThreads spec_page)))"
    by (simp add: g)
  from group_children_attach [OF spec_page_distinct this] show ?thesis
    unfolding g by (simp add: spec_page_def reply_parent_def)
qed

text \<open>
  C23: Roots. In a page with distinct URIs, the roots of the forest are, as a multiset,
  exactly the entries that are no reply or whose parent is not in the page.
\<close>

theorem group_roots_members:
  assumes "distinct (map item_uri posts)"
  shows "mset (map item (groupPostsIntoThreads posts)) =
           mset (filter (\<lambda>x. case reply_parent x of None \<Rightarrow> True | Some u \<Rightarrow> u \<notin> item_uri ` set posts) posts)"
  using assms by (simp add: map_item_group threadRoots_distinct)

theorem group_roots_members_witness:
  "mset (map item (groupPostsIntoThreads spec_page)) = {# example_item ''R'' ''did:me'' None 10 #}"
  using group_roots_members [OF spec_page_distinct]
  by (simp add: spec_page_def reply_parent_def)

text \<open>
  C24: Root order. The roots come newest first by their index timestamp.
\<close>

theorem group_roots_descending:
  "sorted_wrt (\<lambda>s t. thread_time t \<le> thread_time s) (groupPostsIntoThreads posts)"
proof -
  have "sorted (map (\<lambda>x. - indexedAt (post x)) (map item (groupPostsIntoThreads posts)))"
    by (simp only: map_item_group sorted_sort_key)
  then show ?thesis by (simp add: sorted_map thread_time_item)
qed

text \<open>
  Tie-break. Roots with equal timestamps keep their order in the feed.
\<close>

theorem group_roots_stable:
  "filter (\<lambda>x. indexedAt (post x) = k) (map item (groupPostsIntoThreads posts)) =
   filter (\<lambda>x. indexedAt (post x) = k) (threadRoots (postMap posts) posts)"
proof -
  have "filter (\<lambda>x. - indexedAt (post x) = - k)
          (sort_key (\<lambda>x. - indexedAt (post x)) (threadRoots (postMap posts) posts))
      = filter (\<lambda>x. - indexedAt (post x) = - k) (threadRoots (postMap posts) posts)"
    by (rule sort_key_stable)
  then show ?thesis by (simp add: map_item_group)
qed

text \<open>
  C25: Children order. Every node of every built thread has its children sorted oldest
  first.
\<close>

theorem group_children_sorted: "list_all children_sorted (groupPostsIntoThreads posts)"
  by (simp add: groupPostsIntoThreads_unfold list_all_iff children_sorted_sortThreadChildren)

text \<open>
  C26: The fuel of the unfolding is enough: for a page with distinct URIs, any larger fuel
  builds the same forest, so no thread is cut short.
\<close>

theorem groupPostsIntoThreads_fuel_enough:
  assumes "distinct (map item_uri posts)"
  shows "groupPostsIntoThreads_fuel (length posts + k) posts = groupPostsIntoThreads posts"
proof -
  have "build_node (length posts + k) (postMap posts) posts True x =
        build_node (length posts) (postMap posts) posts True x"
    if "x \<in> set (threadRoots (postMap posts) posts)" for x
    using threadRoots_in [OF assms that] root_no_long_descent [OF assms]
    by (intro build_node_stable) blast
  then have "map (build_node (length posts + k) (postMap posts) posts True) (threadRoots (postMap posts) posts)
      = map (build_node (length posts) (postMap posts) posts True) (threadRoots (postMap posts) posts)"
    by (rule map_cong [OF refl])
  then show ?thesis
    by (simp only: groupPostsIntoThreads_def groupPostsIntoThreads_fuel_def Let_def)
qed

theorem groupPostsIntoThreads_fuel_enough_witness:
  "groupPostsIntoThreads_fuel 10 spec_page = groupPostsIntoThreads spec_page"
  using groupPostsIntoThreads_fuel_enough [OF spec_page_distinct, of 7]
  by (simp add: spec_page_def)

text \<open>
  The specification's examples: the page \<open>[R (t=10), C1 of R (t=20), C2 of R (t=15)]\<close>
  gives the single thread \<open>R\<close> with children \<open>[C2, C1]\<close>, and two independent roots at
  \<open>t=5\<close> and \<open>t=8\<close> come out as \<open>[t=8, t=5]\<close>.
\<close>

theorem group_spec_examples:
  "groupPostsIntoThreads spec_page =
     [ThreadItem (example_item ''R'' ''did:me'' None 10)
        [ThreadItem (example_item ''C2'' ''did:me'' (Some ''R'') 15) [] False,
         ThreadItem (example_item ''C1'' ''did:me'' (Some ''R'') 20) [] False] True]
   \<and> groupPostsIntoThreads [example_item ''a'' ''did:me'' None 5, example_item ''b'' ''did:me'' None 8] =
     [ThreadItem (example_item ''b'' ''did:me'' None 8) [] True,
      ThreadItem (example_item ''a'' ''did:me'' None 5) [] True]"
  by (simp add: spec_page_def groupPostsIntoThreads_unfold postMap_def threadRoots_def
      pushed_children_def parent_in_page_def node_of_def thread_time_def)

lemma closed_not_built:
  assumes "distinct (map item_uri posts)" and "C \<subseteq> set posts"
    and "\<forall>c\<in>C. \<exists>c'\<in>C. reply_parent c = Some (item_uri c')"
  shows "x \<in> set posts \<Longrightarrow> x \<notin> C \<Longrightarrow> s \<in> set (subtrees (build_node n (postMap posts) posts b x)) \<Longrightarrow>
           item s \<notin> C"
proof (induction n arbitrary: x b s)
  case (Suc n)
  show ?case
  proof (cases "s = build_node (Suc n) (postMap posts) posts b x")
    case True
    with Suc.prems show ?thesis by simp
  next
    case False
    with Suc.prems obtain c where c: "c \<in> set (pushed_children (postMap posts) posts (item_uri x))"
      and s: "s \<in> set (subtrees (build_node n (postMap posts) posts False c))" by auto
    have cp: "c \<in> set posts" "reply_parent c = Some (item_uri x)"
      using c pushed_children_distinct [OF assms(1) imageI [OF Suc.prems(1)]] by auto
    have "c \<notin> C"
    proof
      assume "c \<in> C"
      then obtain c' where "c' \<in> C" "item_uri c' = item_uri x" using assms(3) cp(2) by fastforce
      moreover have "inj_on item_uri (set posts)" using assms(1) by (simp add: distinct_map)
      ultimately have "c' = x" using assms(2) Suc.prems(1) by (auto dest: inj_onD)
      then show False using \<open>c' \<in> C\<close> Suc.prems(2) by simp
    qed
    then show ?thesis using Suc.IH [OF cp(1) _ s] by simp
  qed
qed simp

lemma closed_not_root:
  assumes "C \<subseteq> set posts" and "\<forall>c\<in>C. \<exists>c'\<in>C. reply_parent c = Some (item_uri c')"
    and "parent_in_page (postMap posts) r = None"
  shows "r \<notin> C"
proof
  assume "r \<in> C"
  then obtain c' where "c' \<in> C" "reply_parent r = Some (item_uri c')" using assms(2) by blast
  moreover then have "postMap posts (item_uri c') \<noteq> None" using assms(1) postMap_dom by blast
  ultimately show False using assms(3) by (auto simp: parent_in_page_def reply_parent_def split: option.splits)
qed

text \<open>
  C27: Replies in a cycle are lost. In a page with distinct URIs, a set of entries each
  of which replies to an entry of the set (a cycle of replies and what hangs below it
  through the set) has no entry in the built forest: none of them is a root, and no
  child link from outside the set leads into it.
\<close>

theorem group_cycle_dropped:
  assumes "distinct (map item_uri posts)" and "C \<subseteq> set posts"
    and "\<forall>c\<in>C. \<exists>c'\<in>C. reply_parent c = Some (item_uri c')"
  shows "C \<inter> set (map item (concat (map subtrees (groupPostsIntoThreads posts)))) = {}"
proof -
  have "item s \<notin> C" if t: "t \<in> set (groupPostsIntoThreads posts)" and s: "s \<in> set (subtrees t)" for t s
  proof -
    obtain r where r: "r \<in> set (threadRoots (postMap posts) posts)"
      and t': "t = sortThreadChildren (build_node (length posts) (postMap posts) posts True r)"
      using t by (auto simp: groupPostsIntoThreads_unfold)
    have rp: "r \<in> set posts" "parent_in_page (postMap posts) r = None"
      using threadRoots_in [OF assms(1) r] by simp_all
    obtain s' where "s' \<in> set (subtrees (build_node (length posts) (postMap posts) posts True r))"
        "s = sortThreadChildren s'"
      using subtrees_sortThreadChildren s t' by blast
    then show ?thesis
      using closed_not_built [OF assms rp(1) closed_not_root [OF assms(2,3) rp(2)]] by simp
  qed
  then show ?thesis by auto
qed

theorem group_cycle_dropped_witness:
  "{example_item ''A'' ''did:me'' (Some ''B'') 1, example_item ''B'' ''did:me'' (Some ''A'') 2}
     \<inter> set (map item (concat (map subtrees (groupPostsIntoThreads cycle_page)))) = {}"
  by (rule group_cycle_dropped) (auto simp: cycle_page_def reply_parent_def)

end
