(* ===== verification/Fetch.thy ===== *)
theory Fetch
  imports Thread_Filter Thread_Builder Avatars
begin

text \<open>
  The feed fetcher of \<open>src/utils/bluesky.ts\<close>: \<open>fetchUserProfile\<close> and
  \<open>fetchUserPosts\<close>, the entry points the application calls. \<open>fetchUserPosts\<close> composes
  the other components: the cache (first page only), h resolution, one page of the
  author feed, the thread filter, the thread builder, the avatar enricher and the write
  back into the cache. A thrown \<open>Error\<close> is a value of \<open>fetch_error\<close> on the left of
  the result; a call that never settles (the filter's ancestor walk on a cycle) is
  \<open>None\<close>.
\<close>

datatype fetch_error =
    ResolveFailed nat
  | PostsFailed nat
  | NetworkError

text \<open>\<open>fetchUserProfile(handle)\<close>: never throws; \<open>None\<close> on any failure.\<close>

definition fetchUserProfile :: "api \<Rightarrow> time \<Rightarrow> storage \<Rightarrow> string \<Rightarrow> profile_data option \<times> storage" where
  "fetchUserProfile a now ls h =
     (case getProfile_cached ls now h of
        (Some p, ls1) \<Rightarrow> (Some p, ls1)
      | (None, ls1) \<Rightarrow>
          (case getProfile a h of
             HOk p \<Rightarrow> (Some p, setProfile ls1 now h p)
           | _ \<Rightarrow> (None, ls1)))"

text \<open>
  \<open>fetchUserPosts(handle, cursor, limit, useCache)\<close>. The page request carries the
  cursor when it is truthy; \<open>setPosts\<close> is told the page is initial when it is not.
\<close>

definition fetchUserPosts ::
  "api \<Rightarrow> time \<Rightarrow> storage \<Rightarrow> string \<Rightarrow> string option \<Rightarrow> nat \<Rightarrow> bool \<Rightarrow>
     ((fetch_error + posts_response) \<times> storage) option" where
  "fetchUserPosts a now ls h cursor limit useCache =
     (let (cached, ls1) = (if useCache \<and> \<not> js_truthy cursor then getPosts ls now h else (None, ls))
      in case cached of
           Some c \<Rightarrow> Some (Inr \<lparr>resp_posts = pc_posts c, resp_cursor = pc_cursor c\<rparr>, ls1)
         | None \<Rightarrow>
             (case resolveHandle a h of
                HStatus n \<Rightarrow> Some (Inl (ResolveFailed n), ls1)
              | HNetErr \<Rightarrow> Some (Inl NetworkError, ls1)
              | HOk userDid \<Rightarrow>
                  (case getAuthorFeed a userDid limit (if js_truthy cursor then cursor else None) of
                     HStatus n \<Rightarrow> Some (Inl (PostsFailed n), ls1)
                   | HNetErr \<Rightarrow> Some (Inl NetworkError, ls1)
                   | HOk page \<Rightarrow>
                       (case filterPostsForSelfOnlyThreads a (feed page) userDid of
                          None \<Rightarrow> None
                        | Some filteredPosts \<Rightarrow>
                            (let threadedPosts = groupPostsIntoThreads filteredPosts;
                                 (enhancedPosts, ls2) = enhancePostsWithAvatars a now ls1 threadedPosts;
                                 ls3 = (if useCache
                                        then setPosts ls2 now h enhancedPosts (page_cursor page)
                                               (\<not> js_truthy cursor)
                                        else ls2)
                             in Some (Inr \<lparr>resp_posts = enhancedPosts, resp_cursor = page_cursor page\<rparr>, ls3))))))"

text \<open>The reads of the enricher touch only profile keys and keep writability.\<close>

definition same_outside_profiles :: "storage \<Rightarrow> storage \<Rightarrow> bool" where
  "same_outside_profiles ls ls' \<longleftrightarrow>
     writable ls' = writable ls \<and> (\<forall>k. k \<notin> range pkey \<longrightarrow> getItem ls' k = getItem ls k)"

text \<open>
  Concrete services for the witnesses: an author feed of one post per page, the page
  after cursor \<open>c1\<close> being \<open>p2\<close>, and a resolver that fails with a status.
\<close>

definition example_page :: "uri \<Rightarrow> time \<Rightarrow> string option \<Rightarrow> feed_page" where
  "example_page u t c = \<lparr>feed = [example_item u ''did:me'' None t], page_cursor = c\<rparr>"

definition feed_api :: api where
  "feed_api =
     \<lparr>resolveHandle = (\<lambda>_. HOk ''did:me''),
      getAuthorFeed = (\<lambda>_ _ c. if c = Some ''c1'' then HOk (example_page ''p2'' 2 (Some ''c2''))
                               else HOk (example_page ''p1'' 1 (Some ''c1''))),
      getPostThread = (\<lambda>_. HStatus 404), getProfile = (\<lambda>_. HStatus 404)\<rparr>"

definition failing_api :: "nat \<Rightarrow> api" where
  "failing_api n =
     \<lparr>resolveHandle = (\<lambda>_. HStatus n), getAuthorFeed = (\<lambda>_ _ _. HStatus n),
      getPostThread = (\<lambda>_. HStatus n), getProfile = (\<lambda>_. HStatus n)\<rparr>"

subsection \<open>Lemmas on the fetcher\<close>


lemma same_outside_refl [simp]: "same_outside_profiles ls ls"
  by (simp add: same_outside_profiles_def)

lemma same_outside_trans:
  "same_outside_profiles ls ls1 \<Longrightarrow> same_outside_profiles ls1 ls2 \<Longrightarrow> same_outside_profiles ls ls2"
  by (simp add: same_outside_profiles_def)

lemma lookup_same_outside:
  "lookup_avatar now ls d = (av, ls') \<Longrightarrow> same_outside_profiles ls ls'"
  by (metis (no_types, lifting) rangeI read_other read_writable same_outside_profiles_def snd_conv
      snd_lookup_avatar)

lemma enhance_embed_same_outside:
  "enhance_embed now ls eo = (e, ls') \<Longrightarrow> same_outside_profiles ls ls'"
  by (auto simp: enhance_embed_def dest: lookup_same_outside split: option.splits prod.splits)

lemma enhance_same_outside:
  "same_outside_profiles ls (snd (enhanceThreadWithAvatars now ls t))"
  "same_outside_profiles ls (snd (enhance_children now ls ts))"
proof (induction now ls t and now ls ts rule: enhanceThreadWithAvatars_enhance_children.induct)
  case (1 now ls x cs r)
  obtain av ls1 where l: "lookup_avatar now ls (did (post_author (post x))) = (av, ls1)" by fastforce
  obtain e ls2 where ee: "enhance_embed now ls1 (post_embed (post x)) = (e, ls2)" by fastforce
  have IH: "same_outside_profiles ls2 (snd (enhance_children now ls2 cs))"
    by (rule "1.IH" [OF refl l [symmetric] refl refl]) (simp add: ee)
  obtain cs' ls3 where "enhance_children now ls2 cs = (cs', ls3)" by fastforce
  with IH lookup_same_outside [OF l] enhance_embed_same_outside [OF ee] show ?case
    by (simp add: l ee) (meson same_outside_trans)
next
  case (3 now ls t ts)
  obtain t' ls1 where e: "enhanceThreadWithAvatars now ls t = (t', ls1)" by fastforce
  moreover obtain ts' ls2 where "enhance_children now ls1 ts = (ts', ls2)" by fastforce
  ultimately show ?case using "3.IH"(1) "3.IH"(2) [OF refl e [symmetric]]
    by simp (meson same_outside_trans)
qed simp

lemma fetchProfiles_same_outside:
  "distinct dids \<Longrightarrow> same_outside_profiles ls (fetchProfiles a now ls dids)"
  using fetchProfiles_local [of dids a now ls] by (auto simp: same_outside_profiles_def)

lemma enhancePosts_same_outside:
  "same_outside_profiles ls (snd (enhancePostsWithAvatars a now ls ts))"
  unfolding enhancePostsWithAvatars_def Let_def
  using fetchProfiles_same_outside [OF distinct_collectDids] enhance_same_outside(2) same_outside_trans
  by blast

lemma thread_uri_map_authors [simp]: "thread_uri (map_authors g t) = thread_uri t"
  by (cases t) (simp add: thread_uri_def item_uri_def)

lemma map_thread_uri_enhance:
  "map thread_uri (fst (enhancePostsWithAvatars a now ls ts)) = map thread_uri ts"
proof -
  have "map thread_uri (map (map_authors without_avatar) (fst (enhancePostsWithAvatars a now ls ts)))
      = map thread_uri (map (map_authors without_avatar) ts)"
    by (simp only: enhancePostsWithAvatars_def Let_def enhance_erase(2))
  then show ?thesis by (simp add: comp_def)
qed

lemma fetchUserPosts_page:
  assumes "js_truthy c" "resolveHandle a h = HOk u" "getAuthorFeed a u l c = HOk page"
    "filterPostsForSelfOnlyThreads a (feed page) u = Some fs"
  shows "fetchUserPosts a now ls h c l True =
    Some (Inr \<lparr>resp_posts = fst (enhancePostsWithAvatars a now ls (groupPostsIntoThreads fs)),
               resp_cursor = page_cursor page\<rparr>,
          setPosts (snd (enhancePostsWithAvatars a now ls (groupPostsIntoThreads fs))) now h
            (fst (enhancePostsWithAvatars a now ls (groupPostsIntoThreads fs))) (page_cursor page) False)"
  using assms by (simp add: fetchUserPosts_def Let_def split: prod.split)

lemma posts_key_not_profile [simp]: "getKey (posts_key h) \<notin> range pkey"
  by auto

lemma getPosts_cong:
  "getItem ls (getKey (posts_key h)) = getItem ls' (getKey (posts_key h)) \<Longrightarrow>
     fst (getPosts ls now h) = fst (getPosts ls' now h)"
  by (simp add: fst_getPosts cache_get_cong [of ls _ ls'])

lemma getCacheFreshness_cong:
  "getItem ls (getKey (posts_key h)) = getItem ls' (getKey (posts_key h)) \<Longrightarrow>
     getCacheFreshness ls now h = getCacheFreshness ls' now h"
  by (simp add: getCacheFreshness_def)

lemma same_outside_posts:
  "same_outside_profiles ls ls' \<Longrightarrow> getItem ls' (getKey (posts_key h)) = getItem ls (getKey (posts_key h))"
  by (simp add: same_outside_profiles_def)

lemma setPosts_page_existing:
  assumes "writable ls" "fst (getPosts ls now h) = Some ex"
  shows "fst (getPosts (setPosts ls now h ps c False) now h) =
           Some \<lparr>pc_posts = pc_posts ex @ ps, pc_cursor = c, pc_handle = h\<rparr>"
  using assms getPosts_Some_unchanged [OF assms(2)]
  by (simp add: setPosts_def getPosts_after_set)

lemma setPosts_page_missing:
  assumes "writable ls" "fst (getPosts ls now h) = None"
  shows "fst (getPosts (setPosts ls now h ps c False) now h) =
           Some \<lparr>pc_posts = ps, pc_cursor = c, pc_handle = h\<rparr>"
proof -
  obtain ls' where g: "getPosts ls now h = (None, ls')" using assms(2) by (metis prod.collapse)
  have "writable ls'" using assms(1) g getPosts_writable [of ls now h] by simp
  with g show ?thesis by (simp add: setPosts_def getPosts_after_set)
qed

lemma getPosts_writable_eq: "getPosts ls now h = (x, ls') \<Longrightarrow> writable ls' = writable ls"
  by (metis getPosts_writable snd_conv)

lemma writable_setPosts [simp]: "writable (setPosts ls now h ps c i) = writable ls"
  by (auto simp: setPosts_def dest: getPosts_writable_eq split: prod.split option.split)

lemma freshness_setPosts:
  "writable ls \<Longrightarrow> getCacheFreshness (setPosts ls now h ps c i) now h = Some (True, 0)"
  by (auto simp: setPosts_def getCacheFreshness_def store_simps dest: getPosts_writable_eq
      split: prod.split option.split)

lemma appendPosts_all_present:
  assumes "fst (getPosts ls now h) = Some ex"
    and "set (map thread_uri ps) \<subseteq> set (map thread_uri (pc_posts ex))"
  shows "appendPosts ls now h ps c = ls"
proof -
  have "filter (\<lambda>t. thread_uri t \<notin> set (map thread_uri (pc_posts ex))) ps = []"
    using assms(2) by (auto simp: filter_empty_conv)
  then show ?thesis using getPosts_Some_unchanged [OF assms(1)]
    by (simp add: appendPosts_def Let_def)
qed

lemma fetchUserProfile_eq: "fetchUserProfile a now ls h = fetchProfileData a now ls h"
  by (simp add: fetchUserProfile_def fetchProfileData_def)

lemma example_page_cursor [simp]: "page_cursor (example_page u t c) = c"
  by (simp add: example_page_def)

lemma filter_example_page [simp]:
  "filterPostsForSelfOnlyThreads a (feed (example_page u t c)) u' = Some [example_item u ''did:me'' None t]"
  by (simp add: example_page_def is_repost_reason.simps REPOST_RECORD_def)

subsection \<open>Properties of the fetcher\<close>

text \<open>
  C33: Errors. Past the cache, a failing handle resolution or feed request makes
  \<open>fetchUserPosts\<close> reject with the failing status, and the store is left as it was.
\<close>

theorem fetchUserPosts_errors:
  assumes "js_truthy c"
  shows "(resolveHandle a h = HStatus n \<longrightarrow>
            fetchUserPosts a now ls h c l u = Some (Inl (ResolveFailed n), ls))
       \<and> (resolveHandle a h = HOk d \<longrightarrow> getAuthorFeed a d l c = HStatus n \<longrightarrow>
            fetchUserPosts a now ls h c l u = Some (Inl (PostsFailed n), ls))"
  using assms by (simp add: fetchUserPosts_def)

theorem fetchUserPosts_errors_witness:
  "fetchUserPosts (failing_api 502) 0 empty_storage ''h'' (Some ''c1'') 25 True
     = Some (Inl (ResolveFailed 502), empty_storage)"
  using fetchUserPosts_errors [of "Some ''c1''" "failing_api 502" "''h''" 502 0 empty_storage 25 True]
  by (simp add: failing_api_def)

text \<open>
  C34: Cache first. A first-page request with caching on, while the cache holds the
  account's posts, answers them and their cursor without any request, whatever the
  service would answer.
\<close>

theorem fetchUserPosts_cache_first:
  assumes "fst (getPosts ls now h) = Some cd"
  shows "fetchUserPosts a now ls h None l True =
           Some (Inr \<lparr>resp_posts = pc_posts cd, resp_cursor = pc_cursor cd\<rparr>, ls)"
  using getPosts_Some_unchanged [OF assms] by (simp add: fetchUserPosts_def)

theorem fetchUserPosts_cache_first_witness:
  "fetchUserPosts (failing_api 500) 0
     (setPosts empty_storage 0 ''h'' [example_thread ''p1''] (Some ''c1'') True) ''h'' None 25 True =
   Some (Inr \<lparr>resp_posts = [example_thread ''p1''], resp_cursor = Some ''c1''\<rparr>,
         setPosts empty_storage 0 ''h'' [example_thread ''p1''] (Some ''c1'') True)"
proof -
  have "fst (getPosts (setPosts empty_storage 0 ''h'' [example_thread ''p1''] (Some ''c1'') True) 0 ''h'')
          = Some \<lparr>pc_posts = [example_thread ''p1''], pc_cursor = Some ''c1'', pc_handle = ''h''\<rparr>"
    by (simp add: setPosts_def getPosts_after_set)
  from fetchUserPosts_cache_first [OF this] show ?thesis by simp
qed

text \<open>
  C32: The pipeline. A page request that succeeds returns the thread forest the builder
  makes of the filtered page (up to the avatars the enricher attaches) with the page's
  cursor, and appends it to the cached posts, or caches it alone when none are cached.
\<close>

theorem fetchUserPosts_pipeline:
  assumes "js_truthy c" "writable ls" "resolveHandle a h = HOk u" "getAuthorFeed a u l c = HOk page"
    "filterPostsForSelfOnlyThreads a (feed page) u = Some fs"
    "fetchUserPosts a now ls h c l True = Some (Inr r, ls')"
  shows "map (map_authors without_avatar) (resp_posts r) =
           map (map_authors without_avatar) (groupPostsIntoThreads fs)
       \<and> resp_cursor r = page_cursor page
       \<and> fst (getPosts ls' now h) =
           Some \<lparr>pc_posts = (case fst (getPosts ls now h) of Some ex \<Rightarrow> pc_posts ex | None \<Rightarrow> []) @ resp_posts r,
                 pc_cursor = page_cursor page, pc_handle = h\<rparr>"
proof -
  let ?e = "enhancePostsWithAvatars a now ls (groupPostsIntoThreads fs)"
  have r: "r = \<lparr>resp_posts = fst ?e, resp_cursor = page_cursor page\<rparr>"
    and ls': "ls' = setPosts (snd ?e) now h (fst ?e) (page_cursor page) False"
    using fetchUserPosts_page [OF assms(1,3,4,5), of now ls] assms(6) by simp_all
  have k: "fst (getPosts (snd ?e) now h) = fst (getPosts ls now h)"
    using getPosts_cong [OF same_outside_posts [OF enhancePosts_same_outside]] by simp
  have w: "writable (snd ?e)"
    using enhancePosts_same_outside [of ls a now] assms(2) by (simp add: same_outside_profiles_def)
  have "fst (getPosts ls' now h) =
           Some \<lparr>pc_posts = (case fst (getPosts ls now h) of Some ex \<Rightarrow> pc_posts ex | None \<Rightarrow> []) @ fst ?e,
                 pc_cursor = page_cursor page, pc_handle = h\<rparr>"
    using k w by (cases "fst (getPosts ls now h)") (simp_all add: ls' setPosts_page_existing setPosts_page_missing)
  moreover have "map (map_authors without_avatar) (fst ?e) =
                   map (map_authors without_avatar) (groupPostsIntoThreads fs)"
    by (simp only: enhancePostsWithAvatars_def Let_def enhance_erase(2))
  ultimately show ?thesis by (simp add: r)
qed

theorem fetchUserPosts_pipeline_witness:
  "map thread_uri (resp_posts (projr (fst (the (fetchUserPosts feed_api 0 empty_storage ''h'' (Some ''c1'') 25 True)))))
     = [''p2'']"
proof -
  let ?fs = "[example_item ''p2'' ''did:me'' None 2]"
  obtain r ls' where f: "fetchUserPosts feed_api 0 empty_storage ''h'' (Some ''c1'') 25 True = Some (Inr r, ls')"
    using fetchUserPosts_page [of "Some ''c1''" feed_api "''h''" "''did:me''" 25 "example_page ''p2'' 2 (Some ''c2'')" ?fs 0 empty_storage]
    by (simp add: feed_api_def)
  have "map (map_authors without_avatar) (resp_posts r) = map (map_authors without_avatar) (groupPostsIntoThreads ?fs)"
    using fetchUserPosts_pipeline [of "Some ''c1''" empty_storage feed_api "''h''" "''did:me''" 25
        "example_page ''p2'' 2 (Some ''c2'')" ?fs 0 r ls'] f
    by (simp add: feed_api_def)
  then have "map thread_uri (map (map_authors without_avatar) (resp_posts r)) =
             map thread_uri (map (map_authors without_avatar) (groupPostsIntoThreads ?fs))"
    by (rule arg_cong)
  then have "map thread_uri (resp_posts r) = map thread_uri (groupPostsIntoThreads ?fs)"
    by (simp only: map_map comp_def thread_uri_map_authors)
  moreover have "map thread_uri (groupPostsIntoThreads ?fs) = [''p2'']"
    by (simp add: groupPostsIntoThreads_unfold postMap_def threadRoots_def parent_in_page_def
        node_of_def thread_uri_def)
  ultimately show ?thesis using f by simp
qed

end
