(* ===== verification/App.thy ===== *)
theory App
  imports Fetch
begin

text \<open>
  The application component of \<open>App.tsx\<close> (the newer version, with cache and preload,
  stored in \<open>src/utils/bluesky.ts\<close> lines 836--1111): its React state as a record,
  its handlers as functions of the state, and the re-run of the mount effect that React
  performs whenever the identity of \<open>loadPosts\<close> changes. Each handler runs to its end
  as one step; a request that never settles leaves the state it had reached before its
  \<open>await\<close>, with its loading flag still set.
\<close>

definition HANDLE :: string where
  "HANDLE = ''old.ruffruff.party''"

record app_state =
  threads :: "thread_item list"
  hasMore :: bool
  app_cursor :: "string option"
  loading :: bool
  isPaginating :: bool
  app_error :: "fetch_error option"
  app_profile :: "profile_data option"
  profileLoading :: bool
  preloadTriggered :: bool
  preloadTimer :: bool
  effectPending :: bool
  store :: storage

text \<open>
  The state after the first render: the \<open>useState\<close> initial values, the ref
  \<open>preloadTriggered\<close> false, and the mount effect due. \<open>preloadTimer\<close> records a
  pending \<open>setTimeout\<close> of the preload; \<open>effectPending\<close> a due run of the effect.
\<close>

definition initial_state :: "storage \<Rightarrow> app_state" where
  "initial_state ls =
     \<lparr>threads = [], hasMore = True, app_cursor = None, loading = True, isPaginating = False,
      app_error = None, app_profile = None, profileLoading = True, preloadTriggered = False,
      preloadTimer = False, effectPending = True, store = ls\<rparr>"

text \<open>\<open>response.cursor || null\<close>.\<close>

definition or_null :: "string option \<Rightarrow> string option" where
  "or_null c = (if js_truthy c then c else None)"

definition apply_page :: "bool \<Rightarrow> posts_response \<Rightarrow> app_state \<Rightarrow> app_state" where
  "apply_page isInitial r s =
     s\<lparr>threads := (if isInitial then resp_posts r else threads s @ resp_posts r),
       app_cursor := or_null (resp_cursor r),
       hasMore := (js_truthy (resp_cursor r) \<and> resp_posts r \<noteq> [])\<rparr>"

definition apply_error :: "fetch_error \<Rightarrow> app_state \<Rightarrow> app_state" where
  "apply_error e s = s\<lparr>app_error := Some e, hasMore := False\<rparr>"

definition finish_load :: "bool \<Rightarrow> app_state \<Rightarrow> app_state" where
  "finish_load isInitial s = (if isInitial then s\<lparr>loading := False\<rparr> else s\<lparr>isPaginating := False\<rparr>)"

text \<open>
  \<open>await fetchUserPosts(HANDLE, c, 25, useCache)\<close> inside the \<open>try\<close> of
  \<open>loadPosts\<close>, with its \<open>catch\<close> and \<open>finally\<close>.
\<close>

definition fetch_into :: "api \<Rightarrow> time \<Rightarrow> bool \<Rightarrow> string option \<Rightarrow> bool \<Rightarrow> app_state \<Rightarrow> app_state" where
  "fetch_into a now isInitial c useCache s =
     (case fetchUserPosts a now (store s) HANDLE c 25 useCache of
        None \<Rightarrow> s
      | Some (Inr r, ls) \<Rightarrow> finish_load isInitial (apply_page isInitial r (s\<lparr>store := ls\<rparr>))
      | Some (Inl e, ls) \<Rightarrow> finish_load isInitial (apply_error e (s\<lparr>store := ls\<rparr>)))"

definition loadPosts :: "api \<Rightarrow> time \<Rightarrow> bool \<Rightarrow> app_state \<Rightarrow> app_state" where
  "loadPosts a now isInitial s =
     (if isInitial then
        (let s0 = s\<lparr>app_error := None\<rparr>;
             (cached, ls1) = getPosts (store s0) now HANDLE;
             s1 = s0\<lparr>store := ls1\<rparr>
         in case cached of
              Some c \<Rightarrow>
                (let s2 = s1\<lparr>threads := pc_posts c, app_cursor := pc_cursor c,
                             hasMore := (js_truthy (pc_cursor c) \<and> pc_posts c \<noteq> []), loading := False\<rparr>
                 in case getCacheFreshness (store s2) now HANDLE of
                      Some (_, age) \<Rightarrow>
                        if age > 60000 then fetch_into a now True None False s2 else finish_load True s2
                    | None \<Rightarrow> finish_load True s2)
            | None \<Rightarrow> fetch_into a now True None True (s1\<lparr>loading := True\<rparr>))
      else fetch_into a now False (app_cursor s) True (s\<lparr>isPaginating := True\<rparr>))"

definition loadInitialData :: "api \<Rightarrow> time \<Rightarrow> app_state \<Rightarrow> app_state" where
  "loadInitialData a now s =
     (let (cachedProfile, ls1) = getProfile_cached (store s) now HANDLE;
          s1 = (case cachedProfile of
                  Some p \<Rightarrow> s\<lparr>app_profile := Some p, profileLoading := False\<rparr>
                | None \<Rightarrow> s\<lparr>profileLoading := True\<rparr>);
          (profileData, ls2) = fetchUserProfile a now ls1 HANDLE;
          s2 = (case profileData of Some p \<Rightarrow> s1\<lparr>app_profile := Some p\<rparr> | None \<Rightarrow> s1)
      in s2\<lparr>store := ls2, profileLoading := False\<rparr>)"

text \<open>The mount effect: \<open>loadInitialData(); loadPosts(true);\<close>.\<close>

definition mount_effect :: "api \<Rightarrow> time \<Rightarrow> app_state \<Rightarrow> app_state" where
  "mount_effect a now s = loadPosts a now True (loadInitialData a now (s\<lparr>effectPending := False\<rparr>))"

definition fetchMorePosts :: "api \<Rightarrow> time \<Rightarrow> app_state \<Rightarrow> app_state" where
  "fetchMorePosts a now s = (if js_truthy (app_cursor s) \<and> hasMore s then loadPosts a now False s else s)"

text \<open>
  \<open>handleScroll\<close>: \<open>scrollY + innerHeight >= scrollHeight * 0.8\<close>, written over the
  integers as \<open>10 * (scrollY + innerHeight) >= 8 * scrollHeight\<close>. The preload is not
  awaited; when it settles, the timer that resets the ref is armed.
\<close>

definition handleScroll :: "api \<Rightarrow> time \<Rightarrow> int \<Rightarrow> int \<Rightarrow> int \<Rightarrow> app_state \<Rightarrow> app_state" where
  "handleScroll a now scrollY innerHeight scrollHeight s =
     (if 10 * (scrollY + innerHeight) \<ge> 8 * scrollHeight \<and> js_truthy (app_cursor s) \<and> hasMore s
         \<and> \<not> preloadTriggered s \<and> \<not> loading s then
        (case preloadNextBatch (store s) now HANDLE (\<lambda>ls h c. fetchUserPosts a now ls h c 25 True) of
           None \<Rightarrow> s\<lparr>preloadTriggered := True\<rparr>
         | Some ls \<Rightarrow> s\<lparr>preloadTriggered := True, preloadTimer := True, store := ls\<rparr>)
      else s)"

text \<open>
  The events: the run of the mount effect, the \<open>next\<close> callback of the infinite scroll
  (\<open>fetchMorePosts\<close>), a window scroll, the preload timer, the Retry button of the
  error view and the pull-down refresh of the feed (\<open>refreshFunction\<close>), both
  \<open>loadPosts(true)\<close> and each offered only while its view is on screen.
\<close>

datatype app_event =
    MountEffect
  | FetchMore
  | Scroll int int int
  | PreloadTimerFires
  | Retry
  | PullRefresh

fun app_handler :: "api \<Rightarrow> time \<Rightarrow> app_state \<Rightarrow> app_event \<Rightarrow> app_state" where
  "app_handler a now s MountEffect = (if effectPending s then mount_effect a now s else s)"
| "app_handler a now s FetchMore = fetchMorePosts a now s"
| "app_handler a now s (Scroll y ih sh) = handleScroll a now y ih sh s"
| "app_handler a now s PreloadTimerFires =
     (if preloadTimer s then s\<lparr>preloadTriggered := False, preloadTimer := False\<rparr> else s)"
| "app_handler a now s Retry =
     (if \<not> loading s \<and> app_error s \<noteq> None then loadPosts a now True s else s)"
| "app_handler a now s PullRefresh =
     (if \<not> loading s \<and> app_error s = None \<and> threads s \<noteq> [] then loadPosts a now True s else s)"

text \<open>
  \<open>loadPosts\<close> is a \<open>useCallback\<close> over \<open>[cursor]\<close> and the mount effect depends on
  \<open>[loadPosts]\<close>: a change of the cursor makes the effect due again.
\<close>

definition app_step :: "api \<Rightarrow> time \<Rightarrow> app_state \<Rightarrow> app_event \<Rightarrow> app_state" where
  "app_step a now s e =
     (let s' = app_handler a now s e
      in s'\<lparr>effectPending := (effectPending s' \<or> app_cursor s' \<noteq> app_cursor s)\<rparr>)"

definition app_run :: "api \<Rightarrow> app_state \<Rightarrow> (time \<times> app_event) list \<Rightarrow> app_state" where
  "app_run a s evs = fold (\<lambda>(now, e) s. app_step a now s e) evs s"

inductive app_reach :: "api \<Rightarrow> storage \<Rightarrow> app_state \<Rightarrow> bool" for a ls0 where
  init: "app_reach a ls0 (initial_state ls0)"
| step: "app_reach a ls0 s \<Longrightarrow> app_reach a ls0 (app_step a now s e)"

text \<open>
  The consistency of the pagination state: an error shown stops the infinite scroll, and
  once the first load has ended, more pages are offered only with a cursor to ask for them.
\<close>

definition app_inv :: "app_state \<Rightarrow> bool" where
  "app_inv s \<longleftrightarrow>
     (app_error s \<noteq> None \<longrightarrow> \<not> hasMore s) \<and> (\<not> loading s \<longrightarrow> hasMore s \<longrightarrow> js_truthy (app_cursor s))"

text \<open>
  A session that has shown the first page \<open>p1\<close> of \<open>feed_api\<close> with cursor \<open>c1\<close>, the
  page cached at time 0 (the posts TTL is two minutes).
\<close>

definition paged_store :: storage where
  "paged_store = setPosts empty_storage 0 HANDLE [example_thread ''p1''] (Some ''c1'') True"

definition paged_state :: "storage \<Rightarrow> app_state" where
  "paged_state ls =
     (initial_state ls)\<lparr>threads := [example_thread ''p1''], app_cursor := Some ''c1'', loading := False,
                         profileLoading := False, effectPending := False\<rparr>"

subsection \<open>Lemmas on the handlers\<close>

lemma js_truthy_or_null [simp]: "js_truthy (or_null c) = js_truthy c"
  by (cases c) (simp_all add: or_null_def)

lemma app_inv_page:
  "app_error s = None \<Longrightarrow> app_inv (finish_load i (apply_page i r s))"
  by (simp add: app_inv_def finish_load_def apply_page_def)

lemma app_inv_error: "app_inv (finish_load i (apply_error e s))"
  by (simp add: app_inv_def finish_load_def apply_error_def)

lemma app_inv_fetch_into:
  "app_inv s \<Longrightarrow> app_error s = None \<Longrightarrow> app_inv (fetch_into a now i c u s)"
  by (simp add: fetch_into_def app_inv_page app_inv_error split: option.split sum.split prod.split)

lemma app_inv_finish_initial: "app_inv s \<Longrightarrow> \<not> loading s \<Longrightarrow> app_inv (finish_load True s)"
  by (simp add: finish_load_def app_inv_def)

lemma app_inv_loadPosts_initial: "app_inv (loadPosts a now True s)"
proof -
  let ?s0 = "s\<lparr>app_error := None\<rparr>"
  obtain cached ls1 where g: "getPosts (store s) now HANDLE = (cached, ls1)" by fastforce
  show ?thesis
  proof (cases cached)
    case None
    then show ?thesis using g
      by (simp add: loadPosts_def) (rule app_inv_fetch_into; simp add: app_inv_def)
  next
    case (Some c)
    let ?s2 = "?s0\<lparr>store := ls1, threads := pc_posts c, app_cursor := pc_cursor c,
                   hasMore := (js_truthy (pc_cursor c) \<and> pc_posts c \<noteq> []), loading := False\<rparr>"
    have "app_inv ?s2" by (simp add: app_inv_def)
    then have "app_inv (case getCacheFreshness ls1 now HANDLE of
                 Some (_, age) \<Rightarrow> if age > 60000 then fetch_into a now True None False ?s2
                                 else finish_load True ?s2
               | None \<Rightarrow> finish_load True ?s2)"
      by (simp add: app_inv_fetch_into app_inv_finish_initial split: option.split prod.split)
    then show ?thesis using g Some by (simp add: loadPosts_def Let_def)
  qed
qed

lemma app_inv_loadPosts_page:
  "app_inv s \<Longrightarrow> hasMore s \<Longrightarrow> app_inv (loadPosts a now False s)"
  by (simp add: loadPosts_def) (rule app_inv_fetch_into; simp add: app_inv_def)

lemma loadInitialData_fields [simp]:
  "threads (loadInitialData a now s) = threads s"
  "hasMore (loadInitialData a now s) = hasMore s"
  "app_cursor (loadInitialData a now s) = app_cursor s"
  "loading (loadInitialData a now s) = loading s"
  "app_error (loadInitialData a now s) = app_error s"
  by (simp_all add: loadInitialData_def Let_def split: prod.split option.split)

lemma app_inv_effectPending [simp]: "app_inv (s\<lparr>effectPending := b\<rparr>) = app_inv s"
  by (simp add: app_inv_def)

lemma app_inv_handler:
  assumes "app_inv s"
  shows "app_inv (app_handler a now s e)"
proof (cases e)
  case MountEffect
  then show ?thesis using assms by (simp add: mount_effect_def app_inv_loadPosts_initial)
next
  case FetchMore
  then show ?thesis using assms by (simp add: fetchMorePosts_def app_inv_loadPosts_page)
next
  case (Scroll y ih sh)
  then show ?thesis using assms by (auto simp: handleScroll_def app_inv_def split: option.split)
next
  case Retry
  then show ?thesis using assms by (simp add: app_inv_loadPosts_initial)
next
  case PullRefresh
  then show ?thesis using assms by (simp add: app_inv_loadPosts_initial)
qed (use assms in \<open>simp add: app_inv_def\<close>)

lemma app_inv_step: "app_inv s \<Longrightarrow> app_inv (app_step a now s e)"
  by (simp add: app_step_def Let_def app_inv_handler)

lemma store_loadInitialData:
  "store (loadInitialData a now s) =
     snd (fetchProfileData a now (snd (getProfile_cached (store s) now HANDLE)) HANDLE)"
  by (simp add: loadInitialData_def Let_def fetchUserProfile_eq split: prod.split option.split)

lemma loadInitialData_same_outside: "same_outside_profiles (store s) (store (loadInitialData a now s))"
proof -
  have "getItem (snd (fetchProfileData a now (snd (getProfile_cached (store s) now HANDLE)) HANDLE)) k =
        getItem (store s) k" if "k \<notin> range pkey" for k
  proof -
    from that have "k \<noteq> pkey HANDLE" by auto
    then show ?thesis by (simp add: fetch_other read_other)
  qed
  then show ?thesis by (simp add: store_loadInitialData same_outside_profiles_def)
qed

lemma loadPosts_initial_cached:
  assumes "fst (getPosts (store s) now HANDLE) = Some X"
    and "getCacheFreshness (store s) now HANDLE = Some (True, 0)"
  shows "threads (loadPosts a now True s) = pc_posts X"
  using getPosts_Some_unchanged [OF assms(1)] assms(2)
  by (simp add: loadPosts_def finish_load_def)

lemma mount_effect_cached:
  assumes "fst (getPosts (store s) now HANDLE) = Some X"
    and "getCacheFreshness (store s) now HANDLE = Some (True, 0)"
  shows "threads (mount_effect a now s) = pc_posts X"
proof -
  let ?s' = "loadInitialData a now (s\<lparr>effectPending := False\<rparr>)"
  have k: "getItem (store ?s') (getKey (posts_key HANDLE)) = getItem (store s) (getKey (posts_key HANDLE))"
    using same_outside_posts [OF loadInitialData_same_outside [of "s\<lparr>effectPending := False\<rparr>" a now]]
    by simp
  have "fst (getPosts (store ?s') now HANDLE) = Some X"
    using getPosts_cong [OF k] assms(1) by simp
  moreover have "getCacheFreshness (store ?s') now HANDLE = Some (True, 0)"
    using getCacheFreshness_cong [OF k] assms(2) by simp
  ultimately show ?thesis by (simp add: mount_effect_def loadPosts_initial_cached)
qed

lemma enhance_posts_entry:
  "getItem (snd (enhancePostsWithAvatars a now ls ts)) (getKey (posts_key h)) = getItem ls (getKey (posts_key h))"
  "writable (snd (enhancePostsWithAvatars a now ls ts)) = writable ls"
  using enhancePosts_same_outside [of ls a now ts] by (simp_all add: same_outside_profiles_def)

lemma page_after_enhance:
  assumes "writable ls" "fst (getPosts ls now h) = Some ex"
  shows "fst (getPosts (setPosts (snd (enhancePostsWithAvatars a now ls ts)) now h
                 (fst (enhancePostsWithAvatars a now ls ts)) c False) now h) =
           Some \<lparr>pc_posts = pc_posts ex @ fst (enhancePostsWithAvatars a now ls ts), pc_cursor = c, pc_handle = h\<rparr>"
proof -
  have "fst (getPosts (snd (enhancePostsWithAvatars a now ls ts)) now h) = Some ex"
    using getPosts_cong [OF enhance_posts_entry(1)] assms(2) by simp
  then show ?thesis using assms(1) by (simp add: setPosts_page_existing enhance_posts_entry(2))
qed

lemma not_distinct_repeat:
  "map f xs = map f ys \<Longrightarrow> xs \<noteq> [] \<Longrightarrow> \<not> distinct (map f (zs @ xs @ ys))"
  by (cases xs) auto


lemma page_after_enhance_missing:
  assumes "writable ls" "fst (getPosts ls now h) = None"
  shows "fst (getPosts (setPosts (snd (enhancePostsWithAvatars a now ls ts)) now h
                 (fst (enhancePostsWithAvatars a now ls ts)) c False) now h) =
           Some \<lparr>pc_posts = fst (enhancePostsWithAvatars a now ls ts), pc_cursor = c, pc_handle = h\<rparr>"
proof -
  have "fst (getPosts (snd (enhancePostsWithAvatars a now ls ts)) now h) = None"
    using getPosts_cong [OF enhance_posts_entry(1)] assms(2) by simp
  then show ?thesis using assms(1) by (simp add: setPosts_page_missing enhance_posts_entry(2))
qed


lemma paged_store_cached:
  "fst (getPosts paged_store 0 HANDLE) =
     Some \<lparr>pc_posts = [example_thread ''p1''], pc_cursor = Some ''c1'', pc_handle = HANDLE\<rparr>"
  by (simp add: paged_store_def setPosts_def getPosts_after_set)

lemma group_single [simp]:
  "groupPostsIntoThreads [example_item u a None t] = [ThreadItem (example_item u a None t) [] True]"
  by (simp add: groupPostsIntoThreads_unfold postMap_def threadRoots_def parent_in_page_def node_of_def
      pushed_children_def)

subsection \<open>Properties of the application\<close>



text \<open>
  C5: Preloading duplicates a page. In a session idle at cursor \<open>c\<close> whose cache holds
  the shown posts with that cursor, a scroll near the end preloads the next page into the
  cache (\<open>fetchUserPosts\<close> appends it), the state's cursor stays \<open>c\<close>, so the next
  \<open>fetchMorePosts\<close> requests the same page and appends it to the cache again; the change
  of cursor re-runs the mount effect, which shows the cached posts: the same threads twice.
\<close>

theorem preload_then_paginate_duplicates:
  assumes idle: "\<not> loading s" "\<not> effectPending s" "\<not> preloadTriggered s" "hasMore s"
    and cur: "app_cursor s = Some c" "c \<noteq> []"
    and wr: "writable (store s)"
    and cached: "fst (getPosts (store s) now HANDLE) = Some \<lparr>pc_posts = old, pc_cursor = Some c, pc_handle = HANDLE\<rparr>"
    and api: "resolveHandle a HANDLE = HOk u" "getAuthorFeed a u 25 (Some c) = HOk page"
      "filterPostsForSelfOnlyThreads a (feed page) u = Some fs"
    and nonempty: "groupPostsIntoThreads fs \<noteq> []"
    and moved: "or_null (page_cursor page) \<noteq> Some c"
    and near: "8 * sh \<le> 10 * (y + ih)"
  shows "\<not> distinct (map thread_uri
           (threads (app_run a s [(now, Scroll y ih sh), (now, FetchMore), (now, MountEffect)])))"
proof -
  let ?G = "groupPostsIntoThreads fs"
  let ?f = "\<lambda>ls h c. fetchUserPosts a now ls h c 25 True"
  define e1 where "e1 = enhancePostsWithAvatars a now (store s) ?G"
  define ls2 where "ls2 = setPosts (snd e1) now HANDLE (fst e1) (page_cursor page) False"
  have tc: "js_truthy (Some c)" using cur(2) by simp
  have f1: "?f (store s) HANDLE (Some c) = Some (Inr \<lparr>resp_posts = fst e1, resp_cursor = page_cursor page\<rparr>, ls2)"
    using fetchUserPosts_page [OF tc api] by (simp add: e1_def ls2_def)
  have c2: "fst (getPosts ls2 now HANDLE) =
              Some \<lparr>pc_posts = old @ fst e1, pc_cursor = page_cursor page, pc_handle = HANDLE\<rparr>"
    using page_after_enhance [OF wr cached] by (simp add: ls2_def e1_def)
  have u1: "map thread_uri (fst e1) = map thread_uri ?G"
    by (simp add: e1_def map_thread_uri_enhance)
  have ne1: "fst e1 \<noteq> []" using u1 nonempty by auto
  have app1: "appendPosts ls2 now HANDLE (fst e1) (page_cursor page) = ls2"
    by (rule appendPosts_all_present [OF c2]) auto
  have pre: "preloadNextBatch (store s) now HANDLE ?f = Some ls2"
    using getPosts_Some_unchanged [OF cached] f1 app1 ne1 tc by (simp add: preloadNextBatch_def)
  define s1 where "s1 = app_step a now s (Scroll y ih sh)"
  have s1: "s1 = s\<lparr>preloadTriggered := True, preloadTimer := True, store := ls2\<rparr>"
    using idle cur near pre by (simp add: s1_def app_step_def handleScroll_def algebra_simps)
  define e2 where "e2 = enhancePostsWithAvatars a now ls2 ?G"
  define ls3 where "ls3 = setPosts (snd e2) now HANDLE (fst e2) (page_cursor page) False"
  have wr2: "writable ls2" using wr by (simp add: ls2_def e1_def enhance_posts_entry(2))
  have f2: "fetchUserPosts a now ls2 HANDLE (Some c) 25 True =
              Some (Inr \<lparr>resp_posts = fst e2, resp_cursor = page_cursor page\<rparr>, ls3)"
    using fetchUserPosts_page [OF tc api] by (simp add: e2_def ls3_def)
  define s2 where "s2 = app_step a now s1 FetchMore"
  have s2: "store s2 = ls3" "effectPending s2"
    using s1 idle cur f2 moved
    by (simp_all add: s2_def app_step_def fetchMorePosts_def loadPosts_def fetch_into_def
        finish_load_def apply_page_def)
  have c3: "fst (getPosts ls3 now HANDLE) =
              Some \<lparr>pc_posts = (old @ fst e1) @ fst e2, pc_cursor = page_cursor page, pc_handle = HANDLE\<rparr>"
    using page_after_enhance [OF wr2 c2] by (simp add: ls3_def e2_def)
  have fr3: "getCacheFreshness ls3 now HANDLE = Some (True, 0)"
    using wr2 by (simp add: ls3_def e2_def freshness_setPosts enhance_posts_entry(2))
  have "threads (app_step a now s2 MountEffect) = old @ fst e1 @ fst e2"
    using mount_effect_cached [of s2 now "\<lparr>pc_posts = (old @ fst e1) @ fst e2,
             pc_cursor = page_cursor page, pc_handle = HANDLE\<rparr>" a] s2 c3 fr3
    by (simp add: app_step_def Let_def)
  moreover have "map thread_uri (fst e2) = map thread_uri (fst e1)"
    by (simp add: e2_def u1 map_thread_uri_enhance)
  ultimately show ?thesis
    using not_distinct_repeat [of thread_uri "fst e1" "fst e2" old] ne1
    by (simp add: app_run_def s1_def s2_def)
qed

theorem preload_then_paginate_duplicates_witness:
  "\<not> distinct (map thread_uri (threads (app_run feed_api (paged_state paged_store)
      [(0, Scroll 800 200 1000), (0, FetchMore), (0, MountEffect)])))"
  by (rule preload_then_paginate_duplicates [where c = "''c1''" and old = "[example_thread ''p1'']"
        and u = "''did:me''" and page = "example_page ''p2'' 2 (Some ''c2'')"
        and fs = "[example_item ''p2'' ''did:me'' None 2]"])
    (simp_all add: paged_state_def initial_state_def paged_store_cached feed_api_def or_null_def,
     simp add: paged_store_def)

text \<open>
  C6: Paginating after the posts cache expired drops the feed. When the cached posts have
  expired (or were never written), \<open>setPosts\<close> stores the new page alone; the change of
  cursor re-runs the mount effect, which replaces the shown threads by that page.
\<close>

theorem paginate_after_expiry_replaces_feed:
  assumes idle: "\<not> effectPending s" "hasMore s"
    and cur: "app_cursor s = Some c" "c \<noteq> []"
    and wr: "writable (store s)"
    and expired: "fst (getPosts (store s) now HANDLE) = None"
    and api: "resolveHandle a HANDLE = HOk u" "getAuthorFeed a u 25 (Some c) = HOk page"
      "filterPostsForSelfOnlyThreads a (feed page) u = Some fs"
    and moved: "or_null (page_cursor page) \<noteq> Some c"
  shows "map thread_uri (threads (app_run a s [(now, FetchMore), (now, MountEffect)])) =
           map thread_uri (groupPostsIntoThreads fs)"
proof -
  let ?G = "groupPostsIntoThreads fs"
  define e where "e = enhancePostsWithAvatars a now (store s) ?G"
  define ls2 where "ls2 = setPosts (snd e) now HANDLE (fst e) (page_cursor page) False"
  have tc: "js_truthy (Some c)" using cur(2) by simp
  have f: "fetchUserPosts a now (store s) HANDLE (Some c) 25 True =
              Some (Inr \<lparr>resp_posts = fst e, resp_cursor = page_cursor page\<rparr>, ls2)"
    using fetchUserPosts_page [OF tc api] by (simp add: e_def ls2_def)
  define s1 where "s1 = app_step a now s FetchMore"
  have s1: "store s1 = ls2" "effectPending s1"
    using idle cur f moved
    by (simp_all add: s1_def app_step_def fetchMorePosts_def loadPosts_def fetch_into_def
        finish_load_def apply_page_def)
  have c2: "fst (getPosts ls2 now HANDLE) =
              Some \<lparr>pc_posts = fst e, pc_cursor = page_cursor page, pc_handle = HANDLE\<rparr>"
    using page_after_enhance_missing [OF wr expired] by (simp add: ls2_def e_def)
  have fr2: "getCacheFreshness ls2 now HANDLE = Some (True, 0)"
    using wr by (simp add: ls2_def e_def freshness_setPosts enhance_posts_entry(2))
  have "threads (app_step a now s1 MountEffect) = fst e"
    using mount_effect_cached [of s1 now "\<lparr>pc_posts = fst e, pc_cursor = page_cursor page, pc_handle = HANDLE\<rparr>" a]
      s1 c2 fr2
    by (simp add: app_step_def Let_def)
  then show ?thesis
    by (simp add: app_run_def s1_def e_def map_thread_uri_enhance)
qed

theorem paginate_after_expiry_replaces_feed_witness:
  "threads (paged_state paged_store) = [example_thread ''p1'']
   \<and> map thread_uri (threads (app_run feed_api (paged_state paged_store)
       [(200000, FetchMore), (200000, MountEffect)])) = [''p2'']"
proof -
  have "fst (getPosts paged_store 200000 HANDLE) = None"
    by (simp add: paged_store_def setPosts_def cache_set_def setItem_def getPosts_def cache_get_def
        getItem_def isExpired_def POSTS_TTL_def empty_storage_def)
  then have "map thread_uri (threads (app_run feed_api (paged_state paged_store)
       [(200000, FetchMore), (200000, MountEffect)])) =
       map thread_uri (groupPostsIntoThreads [example_item ''p2'' ''did:me'' None 2])"
    by (intro paginate_after_expiry_replaces_feed [where c = "''c1''" and u = "''did:me''"
          and page = "example_page ''p2'' 2 (Some ''c2'')"])
      (simp_all add: paged_state_def initial_state_def feed_api_def or_null_def, simp add: paged_store_def)
  then show ?thesis by (simp add: paged_state_def thread_uri_def)
qed

end
