(* ===== verification/Components.thy ===== *)
theory Components
  imports Presentation App
begin

text \<open>
  The React components of \<open>src/components\<close>: \<open>Post\<close> (\<open>Post.tsx\<close>), and \<open>Profile\<close>
  and \<open>Thread\<close> (\<open>Profile.tsx\<close>, lines 1--127 and 128--164). A component is the
  function from its props to the data it renders: a record with one field per element of
  its JSX whose content depends on the props (texts, links, image sources, which optional
  elements appear). The JSX around them is fixed markup and is not modelled. The
  browser's inputs the components read are the record \<open>view_env\<close>: the linkifier of
  \<open>formatPostText\<close>, the clock and time zone of \<open>formatDate\<close>, and \<open>new Date(s)\<close> on
  the date strings of embedded posts.
\<close>

record view_env =
  linkify :: "string \<Rightarrow> string"
  year_of :: "time \<Rightarrow> int"
  view_now :: time
  parse_date :: "string \<Rightarrow> time option"

text \<open>\<open>x || y\<close> for an optional string \<open>x\<close> and a string \<open>y\<close>.\<close>

definition js_or :: "string option \<Rightarrow> string \<Rightarrow> string" where
  "js_or x y = (case x of Some s \<Rightarrow> if s \<noteq> [] then s else y | None \<Rightarrow> y)"

text \<open>\<open>{x && <img src={x} alt=... />}\<close>: the image appears when the source is truthy.\<close>

definition avatar_img :: "string option \<Rightarrow> string \<Rightarrow> (string \<times> string) option" where
  "avatar_img src h = (case src of Some s \<Rightarrow> if s \<noteq> [] then Some (s, h @ '' avatar'') else None | None \<Rightarrow> None)"

subsection \<open>\<open>Post\<close>\<close>

text \<open>\<open>n.toString()\<close> for a count.\<close>

fun show_nat :: "nat \<Rightarrow> string" where
  "show_nat n = (if n < 10 then [''0123456789'' ! n] else show_nat (n div 10) @ [''0123456789'' ! (n mod 10)])"

definition EMBED_VIEW_RECORD :: string where
  "EMBED_VIEW_RECORD = ''app.bsky.embed.record#viewRecord''"

definition hasEmbeddedRecord :: "embed option \<Rightarrow> bool" where
  "hasEmbeddedRecord eo =
     (case eo of None \<Rightarrow> False
      | Some e \<Rightarrow> embed_type e = EMBED_RECORD_VIEW \<or> embed_type e = EMBED_RECORD_WITH_MEDIA_VIEW)"

text \<open>
  The record \<open>renderEmbeddedRecord\<close> shows: \<open>embed.record\<close> of a quote,
  \<open>embed.record?.record || null\<close> of a quote with media, and nothing unless that record
  is a \<open>viewRecord\<close>. The images of a quoted post are never collected (the code that
  would is commented out), so the embedded images block never appears.
\<close>

definition shown_embedded_record :: "embed option \<Rightarrow> embedded_record option" where
  "shown_embedded_record eo =
     (if \<not> hasEmbeddedRecord eo then None
      else case eo of
        None \<Rightarrow> None
      | Some e \<Rightarrow>
          (let r = (if embed_type e = EMBED_RECORD_VIEW \<and> embed_record e \<noteq> None then embed_record e
                    else if embed_type e = EMBED_RECORD_WITH_MEDIA_VIEW then
                      (case embed_record e of None \<Rightarrow> None | Some r0 \<Rightarrow> er_record r0)
                    else None)
           in case r of
                None \<Rightarrow> None
              | Some r' \<Rightarrow> if er_type r' \<noteq> EMBED_VIEW_RECORD then None else Some r'))"

record embedded_view =
  ev_avatar :: "(string \<times> string) option"
  ev_name :: "string option"
  ev_handle :: string
  ev_time :: date_label
  ev_html :: string

text \<open>
  An absent author renders nothing where its fields would be (\<open>undefined\<close> in JSX):
  the name is \<open>None\<close> and the handle line is the bare \<open>@\<close>.
\<close>

definition renderEmbeddedRecord :: "view_env \<Rightarrow> embed option \<Rightarrow> embedded_view option" where
  "renderEmbeddedRecord env eo =
     (case shown_embedded_record eo of
        None \<Rightarrow> None
      | Some r \<Rightarrow>
          Some \<lparr>ev_avatar = (case er_author r of None \<Rightarrow> None | Some a \<Rightarrow> avatar_img (avatar a) (handle a)),
                ev_name = map_option (\<lambda>a. js_or (displayName a) (handle a)) (er_author r),
                ev_handle = ''@'' @ (case er_author r of None \<Rightarrow> [] | Some a \<Rightarrow> handle a),
                ev_time = formatDate (year_of env) (view_now env)
                            (parse_date env (js_or (er_indexedAt r) (js_or (er_createdAt r) []))),
                ev_html = formatPostText (linkify env)
                            (js_or (case er_value r of None \<Rightarrow> None | Some v \<Rightarrow> rec_text v) [])
                            (case er_value r of None \<Rightarrow> None | Some v \<Rightarrow> rec_facets v)\<rparr>)"

record stat_view =
  stat_kind :: string
  stat_count :: nat
  stat_title :: string
  stat_href :: string

definition stat_button :: "post \<Rightarrow> string \<Rightarrow> string \<Rightarrow> string \<Rightarrow> nat \<Rightarrow> stat_view list" where
  "stat_button p kind one many n =
     (if n > 0 then
        [\<lparr>stat_kind = kind, stat_count = n,
          stat_title = show_nat n @ '' '' @ (if n = 1 then one else many) @ '' - view on Bluesky'',
          stat_href = getPostUrl (uri p) (handle (post_author p))\<rparr>]
      else [])"

definition stat_buttons :: "post \<Rightarrow> stat_view list" where
  "stat_buttons p =
     (let stats = getEngagementStats p
      in stat_button p ''replies-stat'' ''reply'' ''replies'' (replies stats)
         @ stat_button p ''reposts-stat'' ''repost'' ''reposts'' (reposts stats)
         @ stat_button p ''likes-stat'' ''like'' ''likes'' (likes stats))"

record post_view =
  pv_class :: string
  pv_href :: string
  pv_avatar :: "(string \<times> string) option"
  pv_name :: string
  pv_handle :: string
  pv_time :: date_label
  pv_html :: string
  pv_images :: "string list"
  pv_embedded :: "embedded_view option"
  pv_stats :: "stat_view list"

text \<open>
  \<open>formatPostText(record.text, ...)\<close> on a record without text calls a method of
  \<open>undefined\<close> and throws a \<open>TypeError\<close>: the render fails, \<open>None\<close>.
\<close>

definition Post :: "view_env \<Rightarrow> string \<Rightarrow> bool \<Rightarrow> post \<Rightarrow> post_view option" where
  "Post env h isInThread p =
     (let record = post_record p; author = post_author p;
          isReply = (rec_reply record \<noteq> None)
      in case rec_text record of
           None \<Rightarrow> None
         | Some text \<Rightarrow>
             Some \<lparr>pv_class = ''post '' @ (if isInThread then ''post-in-thread'' else [])
                               @ '' '' @ (if isReply \<and> \<not> isInThread then ''thread-indicator'' else []),
                   pv_href = getPostUrl (uri p) h,
                   pv_avatar = avatar_img (avatar author) (handle author),
                   pv_name = js_or (displayName author) (handle author),
                   pv_handle = ''@'' @ handle author,
                   pv_time = formatDate (year_of env) (view_now env) (Some (indexedAt p)),
                   pv_html = formatPostText (linkify env) text (rec_facets record),
                   pv_images = extractImages (post_embed p),
                   pv_embedded = renderEmbeddedRecord env (post_embed p),
                   pv_stats = stat_buttons p\<rparr>)"

subsection \<open>\<open>Thread\<close>\<close>

text \<open>
  The markup of \<open>Thread\<close> as a tree of elements in document order: a \<open>div\<close> with its
  class and its child nodes, or the element a \<open>Post\<close> renders (\<open>None\<close> when it throws).
\<close>

datatype dom_node = DomDiv (div_class: string) (div_nodes: "dom_node list") | DomPost "post_view option"

text \<open>
  \<open>renderPost(postItem, isChild)\<close>: a \<open>thread-post\<close> block whose first child is the
  \<open>Post\<close> (always \<open>isInThread\<close>), followed, when there are children, by a
  \<open>thread-children\<close> block of their renderings in order (\<open>children && length > 0 &&\<close>
  renders nothing otherwise). The unused \<open>depth\<close> argument is dropped.
\<close>

fun renderPost :: "view_env \<Rightarrow> string \<Rightarrow> bool \<Rightarrow> thread_item \<Rightarrow> dom_node" where
  "renderPost env h isChild (ThreadItem x cs r) =
     DomDiv (''thread-post '' @ (if isChild then ''thread-child'' else ''thread-root''))
       (DomPost (Post env h True (post x))
        # (if cs \<noteq> [] then [DomDiv ''thread-children'' (map (renderPost env h True) cs)] else []))"

definition Thread :: "view_env \<Rightarrow> string \<Rightarrow> thread_item \<Rightarrow> dom_node" where
  "Thread env h t = DomDiv ''thread-container'' [renderPost env h False t]"

subsection \<open>\<open>Profile\<close>\<close>

text \<open>
  \<open>formatCount\<close> divides doubles and prints \<open>toFixed(1)\<close>. \<open>count / 1000\<close> is the
  double nearest the quotient, ties to even: with \<open>e = \<lfloor>log\<^sub>2 (c / d)\<rfloor>\<close> its
  significand is \<open>m = round (c * 2^(52 - e) / d)\<close> and its value \<open>m / 2^(52 - e)\<close>.
  \<open>toFixed(1)\<close> prints \<open>n / 10\<close> for the integer \<open>n\<close> nearest ten times that value,
  the larger on a tie. This is exact integer arithmetic for counts \<open>c < 2^53\<close> (which a
  double holds exactly) and \<open>d \<le> c\<close>, the only calls the code makes.
\<close>

fun log2_floor :: "nat \<Rightarrow> nat" where
  "log2_floor n = (if n < 2 then 0 else Suc (log2_floor (n div 2)))"

definition round_half_even :: "nat \<Rightarrow> nat \<Rightarrow> nat" where
  "round_half_even x d =
     (let q = x div d; r = x mod d
      in if 2 * r < d then q else if d < 2 * r then Suc q else if even q then q else Suc q)"

definition toFixed1_quotient :: "nat \<Rightarrow> nat \<Rightarrow> nat" where
  "toFixed1_quotient c d =
     (let k = 52 - log2_floor (c div d);
          m = round_half_even (c * 2 ^ k) d
      in (10 * m + 2 ^ (k - 1)) div 2 ^ k)"

definition fixed1 :: "nat \<Rightarrow> string" where
  "fixed1 n = show_nat (n div 10) @ ''.'' @ show_nat (n mod 10)"

definition formatCount :: "nat \<Rightarrow> string" where
  "formatCount n =
     (if n \<ge> 1000000 then fixed1 (toFixed1_quotient n 1000000) @ ''M''
      else if n \<ge> 1000 then fixed1 (toFixed1_quotient n 1000) @ ''K''
      else show_nat n)"

record profile_view =
  hv_avatar :: "(string \<times> string) option"
  hv_name :: string
  hv_pronouns :: "string option"
  hv_handle :: string
  hv_bio :: "string option"
  hv_stats :: "(string \<times> string \<times> string) list"

text \<open>
  The three stat buttons, in order: the formatted count (\<open>|| 0\<close>), the label, and the
  page \<open>window.open\<close> opens. The bio is \<open>formatPostText(profile.description)\<close>, whose
  facets default to none.
\<close>

definition Profile :: "view_env \<Rightarrow> profile_data \<Rightarrow> profile_view" where
  "Profile env p =
     (let h = profile_handle p
      in \<lparr>hv_avatar = avatar_img (profile_avatar p) h,
          hv_name = js_or (profile_displayName p) h,
          hv_pronouns = (case pronouns p of Some s \<Rightarrow> if s \<noteq> [] then Some (''('' @ s @ '')'') else None
                         | None \<Rightarrow> None),
          hv_handle = ''@'' @ h,
          hv_bio = (case description p of Some s \<Rightarrow> if s \<noteq> [] then Some (formatPostText (linkify env) s None) else None
                    | None \<Rightarrow> None),
          hv_stats = [(formatCount (or_zero (postsCount p)), ''posts'', ''https://bsky.app/profile/'' @ h),
                      (formatCount (or_zero (followersCount p)), ''followers'',
                         ''https://bsky.app/profile/'' @ h @ ''/followers''),
                      (formatCount (or_zero (followsCount p)), ''following'',
                         ''https://bsky.app/profile/'' @ h @ ''/follows'')]\<rparr>)"

subsection \<open>The screen of \<open>App\<close>\<close>

text \<open>
  The JSX of \<open>App\<close> (\<open>bluesky.ts\<close> 992--1110): the profile slot (a skeleton while the
  profile loads, then the \<open>Profile\<close> card when there is a profile), and one of four
  screens: loading dots while \<open>loading\<close>, the error with its Retry button, the empty
  state, or the infinite scroll of \<open>Thread\<close> blocks, with its loader while
  \<open>hasMore\<close> and the bottom dots while \<open>isPaginating\<close>. The text of the error
  message is not modelled; the screen carries the error value.
\<close>

datatype profile_slot = ProfileSkeleton | ProfileCard profile_view | NoProfileCard

datatype screen =
    LoadingScreen profile_slot
  | ErrorScreen profile_slot fetch_error
  | EmptyScreen profile_slot
  | FeedScreen profile_slot "dom_node list" bool bool

definition profile_header :: "view_env \<Rightarrow> app_state \<Rightarrow> profile_slot" where
  "profile_header env s =
     (if profileLoading s then ProfileSkeleton
      else case app_profile s of Some p \<Rightarrow> ProfileCard (Profile env p) | None \<Rightarrow> NoProfileCard)"

definition App_view :: "view_env \<Rightarrow> app_state \<Rightarrow> screen" where
  "App_view env s =
     (if loading s then LoadingScreen (profile_header env s)
      else case app_error s of
        Some e \<Rightarrow> ErrorScreen (profile_header env s) e
      | None \<Rightarrow>
          if threads s = [] then EmptyScreen (profile_header env s)
          else FeedScreen (profile_header env s) (map (Thread env HANDLE) (threads s)) (hasMore s)
                 (isPaginating s))"

subsection \<open>Reading the rendering\<close>

text \<open>
  Views of what the components produce, for stating their properties: the \<open>Post\<close>
  renderings of a thread block in document order, the number a decimal numeral denotes,
  and renderability, the condition under which \<open>Post\<close> does not throw, lifted to
  forests, to the stored strings of the posts cache, and to the application state.
\<close>

fun dom_posts :: "dom_node \<Rightarrow> post_view option list" where
  "dom_posts (DomDiv c ns) = concat (map dom_posts ns)"
| "dom_posts (DomPost p) = [p]"

text \<open>
  The rendered posts in document order, each with the class of the block that holds it.
\<close>

fun post_blocks :: "string \<Rightarrow> dom_node \<Rightarrow> (string \<times> post_view option) list" where
  "post_blocks parent (DomDiv c ns) = concat (map (post_blocks c) ns)"
| "post_blocks parent (DomPost p) = [(parent, p)]"

fun screen_threads :: "screen \<Rightarrow> dom_node list" where
  "screen_threads (FeedScreen p ts m b) = ts"
| "screen_threads _ = []"

definition read_nat :: "string \<Rightarrow> nat" where
  "read_nat s = foldl (\<lambda>n c. 10 * n + (of_char c - 48)) 0 s"

definition renderable :: "thread_item list \<Rightarrow> bool" where
  "renderable ts \<longleftrightarrow> (\<forall>t \<in> set (concat (map subtrees ts)). rec_text (post_record (post (item t))) \<noteq> None)"

fun stored_renderable :: "stored \<Rightarrow> bool" where
  "stored_renderable (Stored it) = (case data it of CPosts pc \<Rightarrow> renderable (pc_posts pc) | CProfile _ \<Rightarrow> True)"
| "stored_renderable Corrupt = True"

definition posts_renderable :: "storage \<Rightarrow> bool" where
  "posts_renderable ls \<longleftrightarrow>
     (\<forall>k \<in> set (storage_keys ls). startsWith k (getKey (posts_key [])) \<longrightarrow>
        (case getItem ls k of Some v \<Rightarrow> stored_renderable v | None \<Rightarrow> True))"

definition app_renderable :: "app_state \<Rightarrow> bool" where
  "app_renderable s \<longleftrightarrow> renderable (threads s) \<and> posts_renderable (store s)"

text \<open>A browser environment, a quote of a post by \<open>a\<close>, and a root with one reply, for the witnesses.\<close>

definition example_env :: view_env where
  "example_env = \<lparr>linkify = id, year_of = (\<lambda>_. 2026), view_now = 0, parse_date = (\<lambda>_. None)\<rparr>"

definition example_quote :: "author \<Rightarrow> embed option" where
  "example_quote a =
     Some \<lparr>embed_type = EMBED_RECORD_VIEW, embed_images = None,
           embed_record = Some (EmbeddedRecord EMBED_VIEW_RECORD None None (Some a) None None None None),
           embed_media = None\<rparr>"

definition example_reply_thread :: thread_item where
  "example_reply_thread = ThreadItem (example_item ''r'' ''did:me'' None 1) [example_thread ''c''] True"

subsection \<open>Lemmas\<close>

lemma round_half_even_bounds:
  assumes "0 < d"
  shows "2 * x \<le> d * (2 * round_half_even x d + 1)" and "d * (2 * round_half_even x d) \<le> 2 * x + d"
proof -
  define q where "q = x div d"
  define r where "r = x mod d"
  have e: "x = d * q + r" by (simp add: q_def r_def)
  have r: "r < d" using assms by (simp add: r_def)
  have m: "round_half_even x d = (if 2 * r < d then q else if d < 2 * r then Suc q else if even q then q else Suc q)"
    by (simp add: round_half_even_def q_def r_def)
  show "2 * x \<le> d * (2 * round_half_even x d + 1)"
    unfolding m using r by (simp add: e algebra_simps)
  show "d * (2 * round_half_even x d) \<le> 2 * x + d"
    unfolding m using r by (simp add: e algebra_simps)
qed

lemma log2_floor_999 [simp]: "log2_floor 999 = 9"
  by simp

lemma toFixed1_quotient_K_top:
  assumes "999950 \<le> c" "c < 1000000"
  shows "toFixed1_quotient c 1000 = 10000"
proof -
  have dv: "c div 1000 = 999" using assms by linarith
  define m where "m = round_half_even (c * 2 ^ 43) 1000"
  have b1: "2 * (c * 2 ^ 43) \<le> 1000 * (2 * m + 1)" and b2: "1000 * (2 * m) \<le> 2 * (c * 2 ^ 43) + 1000"
    using round_half_even_bounds [of 1000 "c * 2 ^ 43"] by (simp_all add: m_def)
  have "toFixed1_quotient c 1000 = (10 * m + 2 ^ 42) div 2 ^ 43"
    by (simp add: toFixed1_quotient_def dv m_def)
  also have "\<dots> = 10000"
  proof (rule div_nat_eqI)
    show "2 ^ 43 * 10000 \<le> 10 * m + 2 ^ 42"
    proof (cases "c = 999950")
      case True
      then show ?thesis by (simp add: m_def round_half_even_def)
    next
      case False
      then have "999951 \<le> c" using assms(1) by simp
      then show ?thesis using b1 by simp
    qed
    show "10 * m + 2 ^ 42 < 2 ^ 43 * Suc 10000"
      using b2 assms(2) by simp
  qed
  finally show ?thesis .
qed

lemma read_nat_snoc: "read_nat (s @ [c]) = 10 * read_nat s + (of_char c - 48)"
  by (simp add: read_nat_def)

lemma of_char_digit: "d < 10 \<Longrightarrow> of_char (''0123456789'' ! d) = 48 + d"
proof -
  assume "d < 10"
  then have "d = 0 \<or> d = 1 \<or> d = 2 \<or> d = 3 \<or> d = 4 \<or> d = 5 \<or> d = 6 \<or> d = 7 \<or> d = 8 \<or> d = 9"
    by arith
  then show ?thesis by auto
qed

lemma read_show_nat: "read_nat (show_nat n) = n"
proof (induction n rule: show_nat.induct)
  case (1 n)
  show ?case
  proof (cases "n < 10")
    case True
    then show ?thesis by (simp add: read_nat_def of_char_digit)
  next
    case False
    then have "read_nat (show_nat n) = 10 * (n div 10) + n mod 10"
      using "1.IH" by (simp add: read_nat_snoc of_char_digit)
    then show ?thesis by simp
  qed
qed

lemma formatCount_small_roundtrip:
  assumes "n < 1000"
  shows "formatCount n = show_nat n \<and> read_nat (formatCount n) = n"
proof -
  have "formatCount n = show_nat n" using assms by (simp add: formatCount_def del: show_nat.simps)
  then show ?thesis by (simp add: read_show_nat del: show_nat.simps)
qed

lemma dom_posts_renderPost:
  "dom_posts (renderPost env h b t) = map (\<lambda>s. Post env h True (post (item s))) (subtrees t)"
  by (induction env h b t rule: renderPost.induct) (simp add: map_concat cong: map_cong)

lemma post_blocks_renderPost:
  "post_blocks p (renderPost env h b t) =
     (''thread-post '' @ (if b then ''thread-child'' else ''thread-root''), Post env h True (post (item t)))
     # map (\<lambda>s. (''thread-post thread-child'', Post env h True (post (item s)))) (concat (map subtrees (children t)))"
proof (induction env h b t arbitrary: p rule: renderPost.induct)
  case (1 env h isChild x cs r)
  let ?g = "\<lambda>s. (''thread-post thread-child'', Post env h True (post (item s)))"
  have "post_blocks q (renderPost env h True c) = map ?g (subtrees c)" if "c \<in> set cs" for c q
  proof -
    have "cs \<noteq> []" using that by auto
    then show ?thesis using "1.IH" [OF _ that, of q] by (cases c) (simp add: map_concat)
  qed
  then show ?case by (simp add: map_concat cong: map_cong)
qed

lemma er_type_map [simp]: "er_type (er_map_author g r) = er_type r"
  by (cases r) simp

lemma er_record_map [simp]: "er_record (er_map_author g r) = er_record r"
  by (cases r) simp

lemma embed_types_differ' [simp]: "EMBED_RECORD_VIEW \<noteq> EMBED_RECORD_WITH_MEDIA_VIEW"
  using embed_types_differ by metis

lemma Post_None_iff: "Post env h b p = None \<longleftrightarrow> rec_text (post_record p) = None"
  by (simp add: Post_def Let_def split: option.split)

lemma posts_renderable_iff:
  "posts_renderable ls \<longleftrightarrow>
     (\<forall>k v. getItem ls k = Some v \<longrightarrow> startsWith k (getKey (posts_key [])) \<longrightarrow> stored_renderable v)"
  by (auto simp: posts_renderable_def storage_keys_def getItem_def dest: map_of_SomeD
      split: option.split) (metis fst_conv map_of_SomeD)

lemma posts_renderableD:
  "posts_renderable ls \<Longrightarrow> getItem ls (getKey (posts_key h)) = Some v \<Longrightarrow> stored_renderable v"
  by (simp add: posts_renderable_iff getKey_def posts_key_def startsWith_def)

lemma posts_key_not_pkey: "startsWith k (getKey (posts_key [])) \<Longrightarrow> k \<notin> range pkey"
  by (auto simp: startsWith_def getKey_def posts_key_def profile_key_def)

lemma posts_renderable_same_outside:
  "same_outside_profiles ls ls' \<Longrightarrow> posts_renderable ls \<Longrightarrow> posts_renderable ls'"
  unfolding posts_renderable_iff same_outside_profiles_def by (metis posts_key_not_pkey)

lemma posts_renderable_cache_set:
  "posts_renderable ls \<Longrightarrow> (\<And>pc. d = CPosts pc \<Longrightarrow> renderable (pc_posts pc)) \<Longrightarrow>
     posts_renderable (cache_set ls now key d ttl)"
  by (auto simp: posts_renderable_iff store_simps split: cache_data.split)

lemma posts_renderable_cache_get:
  "posts_renderable ls \<Longrightarrow> posts_renderable (snd (cache_get ls now key))"
  by (auto simp: posts_renderable_iff cache_get_def store_simps split: option.split stored.split)

lemma posts_renderable_getPosts:
  assumes "posts_renderable ls"
  shows "posts_renderable (snd (getPosts ls now h))"
    and "fst (getPosts ls now h) = Some pc \<Longrightarrow> renderable (pc_posts pc)"
proof -
  show "posts_renderable (snd (getPosts ls now h))"
    using assms by (simp add: snd_getPosts posts_renderable_cache_get)
  assume "fst (getPosts ls now h) = Some pc"
  then obtain it where "getItem ls (getKey (posts_key h)) = Some (Stored it)" "data it = CPosts pc"
    by (auto simp: fst_getPosts cache_get_def split: option.splits stored.splits if_splits cache_data.splits)
  then show "renderable (pc_posts pc)"
    using posts_renderableD [OF assms] by fastforce
qed

lemma renderable_append [simp]: "renderable (xs @ ys) \<longleftrightarrow> renderable xs \<and> renderable ys"
  by (auto simp: renderable_def)

lemma renderable_filter: "renderable xs \<Longrightarrow> renderable (filter P xs)"
  by (auto simp: renderable_def)

lemma posts_renderable_setPosts:
  assumes "posts_renderable ls" "renderable ps"
  shows "posts_renderable (setPosts ls now h ps c i)"
proof -
  obtain x ls' where g: "getPosts ls now h = (x, ls')" by fastforce
  have "posts_renderable ls'" using posts_renderable_getPosts(1) [OF assms(1), of now h] g by simp
  moreover have "x = Some ex \<Longrightarrow> renderable (pc_posts ex)" for ex
    using posts_renderable_getPosts(2) [OF assms(1), of now h] g by simp
  ultimately show ?thesis using assms g
    by (auto simp: setPosts_def intro!: posts_renderable_cache_set split: option.split)
qed

lemma posts_renderable_appendPosts:
  assumes "posts_renderable ls" "renderable ps"
  shows "posts_renderable (appendPosts ls now h ps c)"
proof -
  obtain x ls' where g: "getPosts ls now h = (x, ls')" by fastforce
  have "posts_renderable ls'" using posts_renderable_getPosts(1) [OF assms(1), of now h] g by simp
  moreover have "x = Some ex \<Longrightarrow> renderable (pc_posts ex)" for ex
    using posts_renderable_getPosts(2) [OF assms(1), of now h] g by simp
  ultimately show ?thesis using assms g
    by (auto simp: appendPosts_def Let_def renderable_filter intro!: posts_renderable_cache_set
        split: option.split)
qed

lemma fold_map_upd_in:
  "fold (\<lambda>x m. m(item_uri x \<mapsto> x)) posts m u = Some y \<Longrightarrow> y \<in> set posts \<or> m u = Some y"
proof (induction posts arbitrary: m)
  case (Cons x posts)
  from Cons.prems have "y \<in> set posts \<or> (m(item_uri x \<mapsto> x)) u = Some y"
    by (intro Cons.IH) simp
  then show ?case by (auto split: if_splits)
qed simp

lemma node_of_postMap_in: "x \<in> set posts \<Longrightarrow> node_of (postMap posts) x \<in> set posts"
  using fold_map_upd_in [of posts Map.empty "item_uri x"]
  by (auto simp: node_of_def postMap_def split: option.split)

lemma pushed_children_postMap_in:
  "c \<in> set (pushed_children (postMap posts) posts u) \<Longrightarrow> c \<in> set posts"
  by (auto simp: pushed_children_def node_of_postMap_in)

lemma build_node_items_in:
  "x \<in> set posts \<Longrightarrow> t \<in> set (subtrees (build_node n (postMap posts) posts r x)) \<Longrightarrow> item t \<in> set posts"
proof (induction n arbitrary: x r t)
  case (Suc n)
  from Suc.prems(2) consider "t = build_node (Suc n) (postMap posts) posts r x"
    | c where "c \<in> set (pushed_children (postMap posts) posts (item_uri x))"
        "t \<in> set (subtrees (build_node n (postMap posts) posts False c))"
    by auto
  then show ?case
  proof cases
    case 1
    then show ?thesis using Suc.prems(1) by simp
  next
    case 2
    then show ?thesis by (blast intro: Suc.IH pushed_children_postMap_in)
  qed
qed simp

lemma threadRoots_postMap_in: "x \<in> set (threadRoots (postMap posts) posts) \<Longrightarrow> x \<in> set posts"
  by (auto simp: threadRoots_def node_of_postMap_in)

lemma group_items_in:
  assumes "t \<in> set (concat (map subtrees (groupPostsIntoThreads posts)))"
  shows "item t \<in> set posts"
proof -
  obtain x where x: "x \<in> set (threadRoots (postMap posts) posts)"
    and t: "t \<in> set (subtrees (sortThreadChildren (build_node (length posts) (postMap posts) posts True x)))"
    using assms by (auto simp: groupPostsIntoThreads_unfold)
  obtain s where "s \<in> set (subtrees (build_node (length posts) (postMap posts) posts True x))"
    and "t = sortThreadChildren s"
    using subtrees_sortThreadChildren [OF t] by blast
  then show ?thesis using build_node_items_in [OF threadRoots_postMap_in [OF x]] by simp
qed

lemma filter_has_text:
  "filterPostsForSelfOnlyThreads a items u = Some fs \<Longrightarrow> x \<in> set fs \<Longrightarrow>
     rec_text (post_record (post x)) \<noteq> None"
  by (induction items arbitrary: fs) (auto split: if_splits option.splits bool.splits)

lemma renderable_group:
  "filterPostsForSelfOnlyThreads a items u = Some fs \<Longrightarrow> renderable (groupPostsIntoThreads fs)"
  unfolding renderable_def by (metis filter_has_text group_items_in)

lemma subtrees_map_authors:
  "subtrees (map_authors g t) = map (map_authors g) (subtrees t)"
proof (induction g t rule: map_authors.induct)
  case (1 g x cs r)
  have "map (\<lambda>c. subtrees (map_authors g c)) cs = map (\<lambda>c. map (map_authors g) (subtrees c)) cs"
    by (intro map_cong refl) (use "1" in auto)
  then show ?case by (simp add: map_concat comp_def del: map_eq_conv)
qed

lemma text_map_authors [simp]:
  "rec_text (post_record (post (item (map_authors g t)))) = rec_text (post_record (post (item t)))"
  by (cases t) simp

lemma renderable_map_authors: "renderable (map (map_authors g) ts) = renderable ts"
  by (auto simp: renderable_def subtrees_map_authors)

lemma renderable_enhance:
  "renderable (fst (enhancePostsWithAvatars a now ls ts)) = renderable ts"
proof -
  have "map (map_authors without_avatar) (fst (enhancePostsWithAvatars a now ls ts)) =
          map (map_authors without_avatar) ts"
    by (simp only: enhancePostsWithAvatars_def Let_def enhance_erase(2))
  then show ?thesis by (metis renderable_map_authors)
qed

lemma fetchUserPosts_page_renderable:
  assumes "posts_renderable ls1" "filterPostsForSelfOnlyThreads a items u = Some fs"
  shows "renderable (fst (enhancePostsWithAvatars a now ls1 (groupPostsIntoThreads fs)))"
    and "posts_renderable (if useCache
            then setPosts (snd (enhancePostsWithAvatars a now ls1 (groupPostsIntoThreads fs))) now h
                   (fst (enhancePostsWithAvatars a now ls1 (groupPostsIntoThreads fs))) cur i
            else snd (enhancePostsWithAvatars a now ls1 (groupPostsIntoThreads fs)))"
proof -
  show r: "renderable (fst (enhancePostsWithAvatars a now ls1 (groupPostsIntoThreads fs)))"
    using renderable_group [OF assms(2)] by (simp add: renderable_enhance)
  have "posts_renderable (snd (enhancePostsWithAvatars a now ls1 (groupPostsIntoThreads fs)))"
    by (rule posts_renderable_same_outside [OF enhancePosts_same_outside assms(1)])
  then show "posts_renderable (if useCache
            then setPosts (snd (enhancePostsWithAvatars a now ls1 (groupPostsIntoThreads fs))) now h
                   (fst (enhancePostsWithAvatars a now ls1 (groupPostsIntoThreads fs))) cur i
            else snd (enhancePostsWithAvatars a now ls1 (groupPostsIntoThreads fs)))"
    using r by (simp add: posts_renderable_setPosts)
qed

lemma fetchUserPosts_renderable:
  assumes "posts_renderable ls" "fetchUserPosts a now ls h c l u = Some (res, ls')"
  shows "posts_renderable ls' \<and> (\<forall>r. res = Inr r \<longrightarrow> renderable (resp_posts r))"
proof -
  obtain cached ls1 where g: "(if u \<and> \<not> js_truthy c then getPosts ls now h else (None, ls)) = (cached, ls1)"
    by fastforce
  have ls1: "posts_renderable ls1" and cr: "\<And>pc. cached = Some pc \<Longrightarrow> renderable (pc_posts pc)"
    using g assms(1) posts_renderable_getPosts [OF assms(1), of now h] by (auto split: if_splits)
  show ?thesis
  proof (cases cached)
    case (Some pc)
    then show ?thesis using assms(2) g ls1 cr by (auto simp: fetchUserPosts_def)
  next
    case None
    note f = assms(2) [unfolded fetchUserPosts_def Let_def g prod.case None option.case]
    show ?thesis
    proof (cases "resolveHandle a h")
      case (HOk userDid)
      show ?thesis
      proof (cases "getAuthorFeed a userDid l (if js_truthy c then c else None)")
        case (HOk page)
        show ?thesis
        proof (cases "filterPostsForSelfOnlyThreads a (feed page) userDid")
          case None
          then show ?thesis using f \<open>resolveHandle a h = HOk userDid\<close> HOk by simp
        next
          case (Some fs)
          then show ?thesis
            using f \<open>resolveHandle a h = HOk userDid\<close> HOk
              fetchUserPosts_page_renderable(1) [OF ls1 Some, where now=now]
              fetchUserPosts_page_renderable(2) [OF ls1 Some, where now=now and useCache=u and h=h
                and cur="page_cursor page" and i="\<not> js_truthy c"]
            by (auto split: prod.splits)
        qed
      qed (use f \<open>resolveHandle a h = HOk userDid\<close> ls1 in auto)
    qed (use f ls1 in auto)
  qed
qed

lemma read_same_outside: "same_outside_profiles ls (snd (getProfile_cached ls now d))"
  unfolding same_outside_profiles_def by (metis rangeI read_other read_writable)

lemma fetch_same_outside: "same_outside_profiles ls (snd (fetchProfileData a now ls d))"
  unfolding same_outside_profiles_def by (metis rangeI fetch_other fetch_writable)

lemma app_renderable_loadInitialData:
  "app_renderable s \<Longrightarrow> app_renderable (loadInitialData a now s)"
proof -
  assume "app_renderable s"
  moreover obtain p1 ls1 where r: "getProfile_cached (store s) now HANDLE = (p1, ls1)" by fastforce
  moreover obtain p2 ls2 where f: "fetchUserProfile a now ls1 HANDLE = (p2, ls2)" by fastforce
  moreover have "same_outside_profiles (store s) ls2"
    using read_same_outside [of "store s" now HANDLE] fetch_same_outside [of ls1 a now HANDLE] r f
    by (simp add: fetchUserProfile_eq) (meson same_outside_trans)
  ultimately show ?thesis
    by (auto simp: app_renderable_def loadInitialData_def Let_def posts_renderable_same_outside
        split: option.splits)
qed

lemma app_renderable_fetch_into:
  "app_renderable s \<Longrightarrow> app_renderable (fetch_into a now i c u s)"
  using fetchUserPosts_renderable [of "store s" a now HANDLE c 25 u]
  by (auto simp: app_renderable_def fetch_into_def apply_page_def apply_error_def finish_load_def
      split: option.split sum.split prod.split)

lemma app_renderable_loadPosts:
  assumes "app_renderable s"
  shows "app_renderable (loadPosts a now i s)"
proof (cases i)
  case True
  obtain cached ls1 where g: "getPosts (store s) now HANDLE = (cached, ls1)" by fastforce
  have ls1: "posts_renderable ls1" and cr: "\<And>pc. cached = Some pc \<Longrightarrow> renderable (pc_posts pc)"
    using posts_renderable_getPosts [of "store s" now HANDLE] assms g by (auto simp: app_renderable_def)
  show ?thesis
  proof (cases cached)
    case None
    then show ?thesis using True g ls1 assms
      by (auto simp: loadPosts_def Let_def app_renderable_def intro!: app_renderable_fetch_into [unfolded app_renderable_def])
  next
    case (Some pc)
    let ?s2 = "s\<lparr>app_error := None, store := ls1, threads := pc_posts pc, app_cursor := pc_cursor pc,
                 hasMore := (js_truthy (pc_cursor pc) \<and> pc_posts pc \<noteq> []), loading := False\<rparr>"
    have s2: "app_renderable ?s2" using ls1 cr Some by (simp add: app_renderable_def)
    have "app_renderable (finish_load True ?s2)" using s2 by (simp add: finish_load_def app_renderable_def)
    then show ?thesis using True g Some app_renderable_fetch_into [OF s2]
      by (auto simp: loadPosts_def Let_def split: option.split prod.split)
  qed
next
  case False
  then show ?thesis using assms app_renderable_fetch_into [of "s\<lparr>isPaginating := True\<rparr>"]
    by (simp add: loadPosts_def app_renderable_def)
qed

lemma posts_renderable_preload:
  assumes "posts_renderable ls" "preloadNextBatch ls now h (\<lambda>ls h c. fetchUserPosts a now ls h c 25 True) = Some ls'"
  shows "posts_renderable ls'"
proof -
  obtain cached ls1 where g: "getPosts ls now h = (cached, ls1)" by fastforce
  have ls1: "posts_renderable ls1"
    using posts_renderable_getPosts(1) [OF assms(1), of now h] g by simp
  show ?thesis
    using assms(2) g ls1 fetchUserPosts_renderable [OF ls1, of a now h _ 25 True]
    by (auto simp: preloadNextBatch_def posts_renderable_appendPosts
        split: option.splits sum.splits if_splits)
qed

lemma app_renderable_step:
  assumes "app_renderable s"
  shows "app_renderable (app_step a now s e)"
proof -
  have "app_renderable (app_handler a now s e)"
  proof (cases e)
    case MountEffect
    have "app_renderable (s\<lparr>effectPending := False\<rparr>)" using assms by (simp add: app_renderable_def)
    then have "app_renderable (mount_effect a now s)"
      by (simp add: mount_effect_def app_renderable_loadPosts app_renderable_loadInitialData)
    then show ?thesis using assms MountEffect by simp
  next
    case FetchMore
    then show ?thesis using assms by (simp add: fetchMorePosts_def app_renderable_loadPosts)
  next
    case (Scroll y ih sh)
    then show ?thesis using assms posts_renderable_preload [of "store s" now HANDLE a]
      by (auto simp: handleScroll_def app_renderable_def split: option.split)
  next
    case PreloadTimerFires
    then show ?thesis using assms by (simp add: app_renderable_def)
  next
    case Retry
    then show ?thesis using assms by (simp add: app_renderable_loadPosts)
  next
    case PullRefresh
    then show ?thesis using assms by (simp add: app_renderable_loadPosts)
  qed
  then show ?thesis by (simp add: app_step_def Let_def app_renderable_def)
qed

lemma app_reach_renderable:
  "app_reach a ls0 s \<Longrightarrow> posts_renderable ls0 \<Longrightarrow> app_renderable s"
proof (induction rule: app_reach.induct)
  case init
  then show ?case by (simp add: app_renderable_def initial_state_def renderable_def)
next
  case (step s now e)
  then show ?case by (simp add: app_renderable_step)
qed

subsection \<open>Properties\<close>

text \<open>
  C11: No post the application shows throws when rendered. If the posts cache initially
  holds only posts with a text, then in every state reachable from the first render every
  \<open>Post\<close> of every \<open>Thread\<close> on the screen of \<open>App\<close> renders: the filter drops entries without
  text, the builder and the enricher keep the records, and the cache only ever stores
  such pages.
\<close>

theorem app_reach_renders:
  assumes "app_reach a ls0 s" and "posts_renderable ls0"
  shows "None \<notin> set (concat (map dom_posts (screen_threads (App_view env s))))"
proof -
  have "renderable (threads s)"
    using app_reach_renderable [OF assms] by (simp add: app_renderable_def)
  then have "\<forall>t \<in> set (threads s). \<forall>u \<in> set (subtrees t). Post env HANDLE True (post (item u)) \<noteq> None"
    by (auto simp: renderable_def Post_None_iff)
  then have "\<forall>t \<in> set (threads s). None \<notin> set (dom_posts (Thread env HANDLE t))"
    by (fastforce simp: Thread_def dom_posts_renderPost)
  then show ?thesis
    by (auto simp: App_view_def split: option.split)
qed

theorem app_reach_renders_witness:
  "None \<notin> set (concat (map dom_posts (screen_threads
     (App_view example_env (app_step feed_api 0 (initial_state empty_storage) MountEffect)))))"
proof -
  have "app_reach feed_api empty_storage (app_step feed_api 0 (initial_state empty_storage) MountEffect)"
    by (rule app_reach.step [OF app_reach.init])
  moreover have "posts_renderable empty_storage"
    by (simp add: posts_renderable_def empty_storage_def storage_keys_def)
  ultimately show ?thesis by (rule app_reach_renders)
qed

text \<open>
  C14: The quoted post that \<open>Post\<close> renders is the record whose author the enricher
  resolves: its author is \<open>embedded_author\<close> of the embed, and after the enricher
  rewrites that author the component renders the same record with the rewritten author.
\<close>

theorem shown_embedded_enriched:
  assumes "shown_embedded_record eo = Some r"
  shows "er_author r = embedded_author eo
    \<and> shown_embedded_record (map_embedded_author g eo) = Some (er_map_author g r)"
  using assms
  by (auto simp: shown_embedded_record_def hasEmbeddedRecord_def embedded_author_def
      map_embedded_author_def Let_def split: option.splits if_splits)

theorem shown_embedded_enriched_witness:
  "embedded_author (example_quote (example_author ''did:q'')) = Some (example_author ''did:q'')
   \<and> shown_embedded_record (map_embedded_author (\<lambda>x. x\<lparr>avatar := Some ''a.jpg''\<rparr>)
        (example_quote (example_author ''did:q''))) =
     Some (EmbeddedRecord EMBED_VIEW_RECORD None None (Some ((example_author ''did:q'')\<lparr>avatar := Some ''a.jpg''\<rparr>))
        None None None None)"
  using shown_embedded_enriched [of "example_quote (example_author ''did:q'')"
      "EmbeddedRecord EMBED_VIEW_RECORD None None (Some (example_author ''did:q'')) None None None None"
      "\<lambda>x. x\<lparr>avatar := Some ''a.jpg''\<rparr>"]
  by (simp add: example_quote_def shown_embedded_record_def hasEmbeddedRecord_def)

text \<open>
  C39: The \<open>Thread\<close> component shows the posts of a thread in preorder, each in a block
  marked as the root or as a child: the root's post first in a \<open>thread-root\<close> block,
  then every reply after its parent, children in the order the thread lists them, each
  in a \<open>thread-child\<close> block.
\<close>

theorem Thread_preorder:
  "post_blocks [] (Thread env h t) =
     (''thread-post thread-root'', Post env h True (post (item t)))
     # map (\<lambda>s. (''thread-post thread-child'', Post env h True (post (item s)))) (concat (map subtrees (children t)))"
  by (simp add: Thread_def post_blocks_renderPost)

theorem Thread_preorder_witness:
  "map fst (post_blocks [] (Thread example_env HANDLE example_reply_thread)) =
     [''thread-post thread-root'', ''thread-post thread-child'']"
  using Thread_preorder [of example_env HANDLE example_reply_thread]
  by (simp add: example_reply_thread_def example_thread_def)

text \<open>
  C16: Thousands that round up. \<open>formatCount\<close> picks the unit from the raw count, before
  rounding: every count from 999,950 to 999,999 prints as \<open>1000.0K\<close> (the double
  nearest \<open>count / 1000\<close> rounds to 1000.0), not \<open>1.0M\<close>.
\<close>

theorem formatCount_rounds_to_1000K:
  assumes "999950 \<le> c" "c < 1000000"
  shows "formatCount c = ''1000.0K''"
  using assms by (simp add: formatCount_def toFixed1_quotient_K_top fixed1_def)

theorem formatCount_rounds_to_1000K_witness: "formatCount 999999 = ''1000.0K''"
  using formatCount_rounds_to_1000K [of 999999] by simp

end
