(* ===== verification/OldApp.thy ===== *)
theory OldApp
  imports Components
begin

text \<open>
  The older \<open>App.tsx\<close>, kept in \<open>src/utils/bluesky.ts\<close> lines 652--835 before the newer
  one: no preload, no cache freshness check, a mount effect with the dependency list
  \<open>[]\<close>, and pagination through the infinite scroll only. Its state is a record like that
  of the newer \<open>App\<close>; \<open>fetchUserPosts\<close> and \<open>fetchUserProfile\<close> are the same functions,
  called with their defaults (25 posts, cache on). A request that never settles leaves the
  state reached before its \<open>await\<close>.
\<close>

definition OLD_HANDLE :: string where
  "OLD_HANDLE = ''aly.ruffruff.party''"

record old_state =
  o_threads :: "thread_item list"
  o_hasMore :: bool
  o_cursor :: "string option"
  o_loading :: bool
  o_error :: "fetch_error option"
  o_profile :: "profile_data option"
  o_profileLoading :: bool
  o_effectPending :: bool
  o_store :: storage

definition old_initial :: "storage \<Rightarrow> old_state" where
  "old_initial ls =
     \<lparr>o_threads = [], o_hasMore = True, o_cursor = None, o_loading = True, o_error = None,
      o_profile = None, o_profileLoading = True, o_effectPending = True, o_store = ls\<rparr>"

text \<open>The \<open>finally\<close> of \<open>loadPosts\<close>: only the initial load clears \<open>loading\<close>.\<close>

definition old_finish :: "bool \<Rightarrow> old_state \<Rightarrow> old_state" where
  "old_finish isInitial s = (if isInitial then s\<lparr>o_loading := False\<rparr> else s)"

definition old_loadPosts :: "api \<Rightarrow> time \<Rightarrow> bool \<Rightarrow> old_state \<Rightarrow> old_state" where
  "old_loadPosts a now isInitial s =
     (let s0 = (if isInitial then s\<lparr>o_loading := True, o_error := None\<rparr> else s)
      in case fetchUserPosts a now (o_store s0) OLD_HANDLE (if isInitial then None else o_cursor s0) 25 True of
           None \<Rightarrow> s0
         | Some (Inr r, ls) \<Rightarrow>
             old_finish isInitial
               (s0\<lparr>o_store := ls,
                   o_threads := (if isInitial then resp_posts r else o_threads s0 @ resp_posts r),
                   o_cursor := or_null (resp_cursor r),
                   o_hasMore := (js_truthy (resp_cursor r) \<and> resp_posts r \<noteq> [])\<rparr>)
         | Some (Inl e, ls) \<Rightarrow>
             old_finish isInitial (s0\<lparr>o_store := ls, o_error := Some e, o_hasMore := False\<rparr>))"

definition old_loadInitialData :: "api \<Rightarrow> time \<Rightarrow> old_state \<Rightarrow> old_state" where
  "old_loadInitialData a now s =
     (let s1 = s\<lparr>o_profileLoading := True\<rparr>;
          (profileData, ls) = fetchUserProfile a now (o_store s1) OLD_HANDLE;
          s2 = (case profileData of Some p \<Rightarrow> s1\<lparr>o_profile := Some p\<rparr> | None \<Rightarrow> s1)
      in s2\<lparr>o_store := ls, o_profileLoading := False\<rparr>)"

text \<open>The effect \<open>useEffect(..., [])\<close>: it runs once, after the first render.\<close>

definition old_mount :: "api \<Rightarrow> time \<Rightarrow> old_state \<Rightarrow> old_state" where
  "old_mount a now s = old_loadPosts a now True (old_loadInitialData a now (s\<lparr>o_effectPending := False\<rparr>))"

definition old_fetchMorePosts :: "api \<Rightarrow> time \<Rightarrow> old_state \<Rightarrow> old_state" where
  "old_fetchMorePosts a now s = (if js_truthy (o_cursor s) \<and> o_hasMore s then old_loadPosts a now False s else s)"

text \<open>
  The events: the mount effect, the \<open>next\<close> callback of the infinite scroll and the Retry
  button of the error view. The pull-down refresh is disabled (\<open>pullDownToRefresh={false}\<close>).
\<close>

datatype old_event = OldMount | OldFetchMore | OldRetry

fun old_step :: "api \<Rightarrow> time \<Rightarrow> old_state \<Rightarrow> old_event \<Rightarrow> old_state" where
  "old_step a now s OldMount = (if o_effectPending s then old_mount a now s else s)"
| "old_step a now s OldFetchMore = old_fetchMorePosts a now s"
| "old_step a now s OldRetry =
     (if \<not> o_loading s \<and> o_error s \<noteq> None then old_loadPosts a now True s else s)"

inductive old_reach :: "api \<Rightarrow> storage \<Rightarrow> old_state \<Rightarrow> bool" for a ls0 where
  init: "old_reach a ls0 (old_initial ls0)"
| step: "old_reach a ls0 s \<Longrightarrow> old_reach a ls0 (old_step a now s e)"

text \<open>
  The screen (lines 771--833): the same four views as the newer \<open>App\<close>, with five
  skeletons while loading and no bottom indicator.
\<close>

definition old_profile_header :: "view_env \<Rightarrow> old_state \<Rightarrow> profile_slot" where
  "old_profile_header env s =
     (if o_profileLoading s then ProfileSkeleton
      else case o_profile s of Some p \<Rightarrow> ProfileCard (Profile env p) | None \<Rightarrow> NoProfileCard)"

definition old_App_view :: "view_env \<Rightarrow> old_state \<Rightarrow> screen" where
  "old_App_view env s =
     (if o_loading s then LoadingScreen (old_profile_header env s)
      else case o_error s of
        Some e \<Rightarrow> ErrorScreen (old_profile_header env s) e
      | None \<Rightarrow>
          if o_threads s = [] then EmptyScreen (old_profile_header env s)
          else FeedScreen (old_profile_header env s) (map (Thread env OLD_HANDLE) (o_threads s)) (o_hasMore s) False)"

subsection \<open>Lemmas\<close>

lemma old_loadPosts_page_appends:
  "\<exists>new. o_threads (old_loadPosts a now False s) = o_threads s @ new"
  by (auto simp: old_loadPosts_def old_finish_def split: option.split sum.split prod.split)

lemma old_loadInitialData_threads [simp]: "o_threads (old_loadInitialData a now s) = o_threads s"
  by (simp add: old_loadInitialData_def Let_def split: prod.split option.split)

lemma old_effectPending_loadPosts [simp]: "o_effectPending (old_loadPosts a now i s) = o_effectPending s"
  by (simp add: old_loadPosts_def old_finish_def Let_def split: option.split sum.split prod.split)

lemma old_effectPending_loadInitialData [simp]:
  "o_effectPending (old_loadInitialData a now s) = o_effectPending s"
  by (simp add: old_loadInitialData_def Let_def split: prod.split option.split)

lemma old_pending_initial:
  "old_reach a ls0 s \<Longrightarrow> o_effectPending s \<Longrightarrow> s = old_initial ls0"
proof (induction rule: old_reach.induct)
  case init
  then show ?case by simp
next
  case (step s now e)
  have pending: "o_effectPending s"
    using step.prems by (cases e) (auto simp: old_mount_def old_fetchMorePosts_def split: if_splits)
  then have s: "s = old_initial ls0" by (rule step.IH)
  show ?case
  proof (cases e)
    case OldMount
    then show ?thesis using step.prems pending by (simp add: old_mount_def)
  next
    case OldFetchMore
    then show ?thesis using s by (simp add: old_fetchMorePosts_def old_initial_def)
  next
    case OldRetry
    then show ?thesis using s by (simp add: old_initial_def)
  qed
qed

subsection \<open>Properties\<close>

text \<open>
  C18: In the older \<open>App\<close> the feed only grows. In every reachable state, every event but
  Retry leaves the shown threads as a prefix of the new ones: the mount effect runs once,
  on the empty feed, and pagination appends its page. The newer \<open>App\<close> lost this
  property (\<open>paginate_after_expiry_replaces_feed\<close>).
\<close>

theorem old_feed_append_only:
  assumes "old_reach a ls0 s" and "e \<noteq> OldRetry"
  shows "\<exists>new. o_threads (old_step a now s e) = o_threads s @ new"
proof (cases e)
  case OldMount
  show ?thesis
  proof (cases "o_effectPending s")
    case True
    then have "o_threads s = []" using old_pending_initial [OF assms(1)] by (simp add: old_initial_def)
    then show ?thesis using OldMount by simp
  next
    case False
    then show ?thesis using OldMount by simp
  qed
next
  case OldFetchMore
  then show ?thesis by (simp add: old_fetchMorePosts_def old_loadPosts_page_appends)
qed (use assms(2) in simp)

theorem old_feed_append_only_witness:
  "\<exists>new. o_threads (old_step feed_api 0 (old_step feed_api 0 (old_initial empty_storage) OldMount) OldFetchMore)
     = o_threads (old_step feed_api 0 (old_initial empty_storage) OldMount) @ new"
proof -
  have "old_reach feed_api empty_storage (old_step feed_api 0 (old_initial empty_storage) OldMount)"
    by (rule old_reach.step [OF old_reach.init])
  moreover have "OldFetchMore \<noteq> OldRetry" by simp
  ultimately show ?thesis by (rule old_feed_append_only)
qed

end
