(* ===== verification/App_Async.thy ===== *)
theory App_Async
  imports App
begin

text \<open>
  The mount effect of the newer \<open>App\<close> with the render React performs at the \<open>await\<close>
  of the background refresh (\<open>src/utils/bluesky.ts\<close> lines 864--955). On a cache hit,
  \<open>loadPosts(true)\<close> shows the cached page and its cursor, and, when the entry is older
  than a minute, awaits \<open>fetchUserPosts(HANDLE, null, 25, false)\<close>. React renders
  the state reached before that \<open>await\<close>; a changed cursor gives \<open>loadPosts\<close> a new
  identity and so re-runs the effect while the refresh is still in flight.

  \<open>loadPosts_start\<close> is the part of \<open>loadPosts(true)\<close> that runs before that
  \<open>await\<close>, with a flag telling whether the refresh was started, and
  \<open>refresh_done\<close> its continuation. The state \<open>async_state\<close> adds to the
  application state the number of refreshes in flight and the number started.
  \<open>RefreshSettles\<close> settles one refresh in flight; every event is followed by the
  render that re-arms the effect when the cursor changed (\<open>rerender\<close>). The other
  awaits of the handlers change no dependency of the effect and stay inside one step.
  A refresh that settles reads the store when it settles: \<open>fetchUserPosts\<close> without
  the cache depends on the store only through the avatars.
\<close>

definition loadPosts_start :: "api \<Rightarrow> time \<Rightarrow> app_state \<Rightarrow> app_state \<times> bool" where
  "loadPosts_start a now s =
     (let s0 = s\<lparr>app_error := None\<rparr>;
          (cached, ls1) = getPosts (store s0) now HANDLE;
          s1 = s0\<lparr>store := ls1\<rparr>
      in case cached of
           Some c \<Rightarrow>
             (let s2 = s1\<lparr>threads := pc_posts c, app_cursor := pc_cursor c,
                          hasMore := (js_truthy (pc_cursor c) \<and> pc_posts c \<noteq> []), loading := False\<rparr>
              in case getCacheFreshness (store s2) now HANDLE of
                   Some (_, age) \<Rightarrow> if age > 60000 then (s2, True) else (finish_load True s2, False)
                 | None \<Rightarrow> (finish_load True s2, False))
         | None \<Rightarrow> (fetch_into a now True None True (s1\<lparr>loading := True\<rparr>), False))"

text \<open>The continuation after the \<open>await\<close> of the background refresh (lines 882--885).\<close>

definition refresh_done :: "api \<Rightarrow> time \<Rightarrow> app_state \<Rightarrow> app_state" where
  "refresh_done a now s = fetch_into a now True None False s"

text \<open>The render after a handler: the effect is due again when the cursor changed.\<close>

definition rerender :: "app_state \<Rightarrow> app_state \<Rightarrow> app_state" where
  "rerender s s' = s'\<lparr>effectPending := (effectPending s' \<or> app_cursor s' \<noteq> app_cursor s)\<rparr>"

text \<open>
  The handlers up to their first render: the three that call \<open>loadPosts(true)\<close> stop
  at the \<open>await\<close> of the background refresh; the others are those of \<open>App\<close>.
\<close>

fun async_handler :: "api \<Rightarrow> time \<Rightarrow> app_state \<Rightarrow> app_event \<Rightarrow> app_state \<times> bool" where
  "async_handler a now s MountEffect =
     (if effectPending s then loadPosts_start a now (loadInitialData a now (s\<lparr>effectPending := False\<rparr>))
      else (s, False))"
| "async_handler a now s Retry =
     (if \<not> loading s \<and> app_error s \<noteq> None then loadPosts_start a now s else (s, False))"
| "async_handler a now s PullRefresh =
     (if \<not> loading s \<and> app_error s = None \<and> threads s \<noteq> [] then loadPosts_start a now s else (s, False))"
| "async_handler a now s e = (app_handler a now s e, False)"

record async_state =
  ui :: app_state
  inflight :: nat
  requests :: nat

datatype async_event = Handler app_event | RefreshSettles

definition async_step :: "api \<Rightarrow> time \<Rightarrow> async_state \<Rightarrow> async_event \<Rightarrow> async_state" where
  "async_step a now st ev =
     (case ev of
        Handler e \<Rightarrow>
          (case async_handler a now (ui st) e of
             (s', started) \<Rightarrow>
               st\<lparr>ui := rerender (ui st) s',
                  inflight := inflight st + (if started then 1 else 0),
                  requests := requests st + (if started then 1 else 0)\<rparr>)
      | RefreshSettles \<Rightarrow>
          (if inflight st = 0 then st
           else st\<lparr>ui := rerender (ui st) (refresh_done a now (ui st)), inflight := inflight st - 1\<rparr>))"

definition async_run :: "api \<Rightarrow> time \<Rightarrow> async_state \<Rightarrow> async_event list \<Rightarrow> async_state" where
  "async_run a now st evs = fold (\<lambda>e st. async_step a now st e) evs st"

text \<open>One round: a run of the mount effect, then the settling of a refresh.\<close>

abbreviation mount_round :: "async_event list" where
  "mount_round \<equiv> [Handler MountEffect, RefreshSettles]"

text \<open>
  A store whose posts entry was written at time 0 with the cursor \<open>c0\<close>; at time
  90000 it is a stale hit (older than a minute, younger than the two-minute TTL).
\<close>

definition stale_store :: storage where
  "stale_store = setPosts empty_storage 0 HANDLE [example_thread ''p0''] (Some ''c0'') True"

subsection \<open>Lemmas\<close>

lemma loadPosts_split:
  "loadPosts a now True s =
     (case loadPosts_start a now s of (s', started) \<Rightarrow> if started then refresh_done a now s' else s')"
  by (simp add: loadPosts_def loadPosts_start_def refresh_done_def Let_def
      split: prod.split option.split)

lemma async_handler_split:
  "(case async_handler a now s e of (s', started) \<Rightarrow> if started then refresh_done a now s' else s') =
     app_handler a now s e"
  by (cases e) (simp_all add: mount_effect_def loadPosts_split split: prod.split)

lemma app_step_rerender: "app_step a now s e = rerender s (app_handler a now s e)"
  by (simp add: app_step_def rerender_def Let_def)

lemma fetch_into_effectPending:
  "fetch_into a now i c u (s\<lparr>effectPending := x\<rparr>) = (fetch_into a now i c u s)\<lparr>effectPending := x\<rparr>"
  by (simp add: fetch_into_def finish_load_def apply_page_def apply_error_def
      split: option.split prod.split sum.split)

lemma effectPending_fetch_into [simp]: "effectPending (fetch_into a now i c u s) = effectPending s"
  by (simp add: fetch_into_def finish_load_def apply_page_def apply_error_def
      split: option.split prod.split sum.split)

lemma effectPending_loadInitialData [simp]:
  "effectPending (loadInitialData a now s) = effectPending s"
  by (simp add: loadInitialData_def Let_def split: prod.split option.split)

lemma effectPending_loadPosts_start [simp]:
  "effectPending (fst (loadPosts_start a now s)) = effectPending s"
  by (simp add: loadPosts_start_def Let_def finish_load_def split: prod.split option.split)

lemma enhance_pair_writable:
  "enhancePostsWithAvatars a now ls ts = (x, ls2) \<Longrightarrow> writable ls2 = writable ls"
  using enhance_posts_entry(2) [of a now ls ts] by simp

lemma fetch_nocache_entry:
  assumes "fetchUserPosts a now ls h c l False = Some (res, ls')"
  shows "getItem ls' (getKey (posts_key h')) = getItem ls (getKey (posts_key h'))"
  using assms enhance_posts_entry [of a now ls]
  by (auto simp: fetchUserPosts_def Let_def split: http.splits option.splits prod.splits)
    (metis snd_conv)

lemma mount_entry:
  "getItem (store (loadInitialData a now s)) (getKey (posts_key HANDLE)) =
   getItem (store s) (getKey (posts_key HANDLE))"
  using loadInitialData_same_outside [of s a now] by (simp add: same_outside_profiles_def)

lemma async_step_settles:
  "inflight st \<noteq> 0 \<Longrightarrow>
   async_step a now st RefreshSettles =
     st\<lparr>ui := rerender (ui st) (refresh_done a now (ui st)), inflight := inflight st - 1\<rparr>"
  by (simp add: async_step_def)

lemma refresh_done_rerender:
  "refresh_done a now (rerender s s') = (refresh_done a now s')\<lparr>effectPending := effectPending (rerender s s')\<rparr>"
  by (simp add: rerender_def refresh_done_def fetch_into_effectPending)

lemma loadPosts_start_stale:
  assumes "fst (getPosts (store s) now HANDLE) = Some c"
    and "getCacheFreshness (store s) now HANDLE = Some (f, age)" and "60000 < age"
  shows "snd (loadPosts_start a now s) \<and> app_cursor (fst (loadPosts_start a now s)) = pc_cursor c
         \<and> store (fst (loadPosts_start a now s)) = store s"
  using getPosts_Some_unchanged [OF assms(1)] assms(2,3) by (simp add: loadPosts_start_def Let_def)

lemma refresh_done_page:
  assumes "fetchUserPosts a now (store u) HANDLE None 25 False = Some (Inr r, ls')"
  shows "app_cursor (refresh_done a now u) = or_null (resp_cursor r)
         \<and> getItem (store (refresh_done a now u)) (getKey (posts_key HANDLE)) =
           getItem (store u) (getKey (posts_key HANDLE))"
  using assms fetch_nocache_entry [OF assms, of HANDLE]
  by (simp add: refresh_done_def fetch_into_def finish_load_def apply_page_def)

lemma async_run_append:
  "async_run a now st (xs @ ys) = async_run a now (async_run a now st xs) ys"
  by (simp add: async_run_def)

lemma stale_round:
  assumes hit: "fst (getPosts (store (ui st)) now HANDLE) = Some c"
    and fr: "getCacheFreshness (store (ui st)) now HANDLE = Some (f, age)" and old: "60000 < age"
    and net: "\<forall>ls. \<exists>r ls'. fetchUserPosts a now ls HANDLE None 25 False = Some (Inr r, ls')
                           \<and> or_null (resp_cursor r) \<noteq> pc_cursor c"
    and due: "effectPending (ui st)"
  shows "getItem (store (ui (async_run a now st mount_round))) (getKey (posts_key HANDLE)) =
           getItem (store (ui st)) (getKey (posts_key HANDLE))
         \<and> effectPending (ui (async_run a now st mount_round))
         \<and> inflight (async_run a now st mount_round) = inflight st
         \<and> requests (async_run a now st mount_round) = Suc (requests st)"
proof -
  let ?s0 = "loadInitialData a now ((ui st)\<lparr>effectPending := False\<rparr>)"
  have k: "getItem (store ?s0) (getKey (posts_key HANDLE)) = getItem (store (ui st)) (getKey (posts_key HANDLE))"
    using mount_entry [of a now "(ui st)\<lparr>effectPending := False\<rparr>"] by simp
  have h0: "fst (getPosts (store ?s0) now HANDLE) = Some c" using getPosts_cong [OF k] hit by simp
  have f0: "getCacheFreshness (store ?s0) now HANDLE = Some (f, age)" using getCacheFreshness_cong [OF k] fr by simp
  obtain s2 where l: "loadPosts_start a now ?s0 = (s2, True)" "app_cursor s2 = pc_cursor c" "store s2 = store ?s0"
    using loadPosts_start_stale [OF h0 f0 old, of a] by (metis prod.collapse)
  let ?u = "rerender (ui st) s2"
  have st1: "async_step a now st (Handler MountEffect) =
      st\<lparr>ui := ?u, inflight := Suc (inflight st), requests := Suc (requests st)\<rparr>"
    using due l(1) by (simp add: async_step_def)
  obtain r ls' where r: "fetchUserPosts a now (store ?u) HANDLE None 25 False = Some (Inr r, ls')"
      "or_null (resp_cursor r) \<noteq> pc_cursor c"
    using net by blast
  have u: "app_cursor ?u = pc_cursor c" "store ?u = store ?s0" using l by (simp_all add: rerender_def)
  note d = refresh_done_page [OF r(1)]
  show ?thesis
    using d r(2) u k by (simp add: async_run_def st1 async_step_settles) (simp add: rerender_def)
qed

lemma concat_replicate_Suc: "concat (replicate (Suc k) xs) = concat (replicate k xs) @ xs"
  by (induction k) simp_all

lemma stale_store_hit:
  "fst (getPosts stale_store 90000 HANDLE) =
     Some \<lparr>pc_posts = [example_thread ''p0''], pc_cursor = Some ''c0'', pc_handle = HANDLE\<rparr>"
  by (simp add: stale_store_def setPosts_def getPosts_def cache_get_def store_simps
      isExpired_def POSTS_TTL_def)

lemma stale_store_freshness: "getCacheFreshness stale_store 90000 HANDLE = Some (True, 90000)"
  by (simp add: stale_store_def setPosts_def getPosts_def cache_get_def store_simps
      getCacheFreshness_def POSTS_TTL_def)

lemma feed_api_first_page:
  "\<forall>ls. \<exists>r ls'. fetchUserPosts feed_api now ls HANDLE None 25 False = Some (Inr r, ls')
               \<and> or_null (resp_cursor r) \<noteq> Some ''c0''"
  by (auto simp: fetchUserPosts_def feed_api_def Let_def or_null_def split: prod.split)

subsection \<open>Properties\<close>


text \<open>
  C12: The mount effect re-runs without end on a stale cache hit. While the posts entry is
  older than a minute and younger than its TTL, and the first page the API returns has a
  cursor other than the cached one, every round of the effect (render the cached cursor,
  start a refresh, render the fresh cursor when it settles) leaves the effect due again
  and the entry unchanged, and starts one more request: after \<open>k\<close> rounds \<open>k\<close> refreshes
  have been sent and the effect is still due.
\<close>

theorem stale_refresh_loops:
  assumes hit: "fst (getPosts (store (ui st)) now HANDLE) = Some c"
    and fr: "getCacheFreshness (store (ui st)) now HANDLE = Some (f, age)" and old: "60000 < age"
    and net: "\<forall>ls. \<exists>r ls'. fetchUserPosts a now ls HANDLE None 25 False = Some (Inr r, ls')
                           \<and> or_null (resp_cursor r) \<noteq> pc_cursor c"
    and due: "effectPending (ui st)"
  shows "effectPending (ui (async_run a now st (concat (replicate k mount_round))))
       \<and> requests (async_run a now st (concat (replicate k mount_round))) = requests st + k
       \<and> getItem (store (ui (async_run a now st (concat (replicate k mount_round))))) (getKey (posts_key HANDLE)) =
           getItem (store (ui st)) (getKey (posts_key HANDLE))"
proof (induction k)
  case 0
  then show ?case using due by (simp add: async_run_def)
next
  case (Suc k)
  let ?st = "async_run a now st (concat (replicate k mount_round))"
  have k: "getItem (store (ui ?st)) (getKey (posts_key HANDLE)) = getItem (store (ui st)) (getKey (posts_key HANDLE))"
    using Suc.IH by blast
  have h: "fst (getPosts (store (ui ?st)) now HANDLE) = Some c" using getPosts_cong [OF k] hit by simp
  have f: "getCacheFreshness (store (ui ?st)) now HANDLE = Some (f, age)"
    using getCacheFreshness_cong [OF k] fr by simp
  note r = stale_round [OF h f old net]
  show ?case using Suc.IH r k by (simp only: concat_replicate_Suc async_run_append) simp
qed

theorem stale_refresh_loops_witness:
  "effectPending (ui (async_run feed_api 90000 \<lparr>ui = initial_state stale_store, inflight = 0, requests = 0\<rparr>
                       (concat (replicate 3 mount_round))))
   \<and> requests (async_run feed_api 90000 \<lparr>ui = initial_state stale_store, inflight = 0, requests = 0\<rparr>
                (concat (replicate 3 mount_round))) = 0 + 3
   \<and> getItem (store (ui (async_run feed_api 90000 \<lparr>ui = initial_state stale_store, inflight = 0, requests = 0\<rparr>
                (concat (replicate 3 mount_round))))) (getKey (posts_key HANDLE)) =
       getItem stale_store (getKey (posts_key HANDLE))"
proof -
  let ?st = "\<lparr>ui = initial_state stale_store, inflight = 0, requests = 0\<rparr>"
  have h: "fst (getPosts (store (ui ?st)) 90000 HANDLE) =
     Some \<lparr>pc_posts = [example_thread ''p0''], pc_cursor = Some ''c0'', pc_handle = HANDLE\<rparr>"
    using stale_store_hit by (simp add: initial_state_def)
  have f: "getCacheFreshness (store (ui ?st)) 90000 HANDLE = Some (True, 90000)"
    using stale_store_freshness by (simp add: initial_state_def)
  have o: "60000 < (90000::int)" by simp
  have n: "\<forall>ls. \<exists>r ls'. fetchUserPosts feed_api 90000 ls HANDLE None 25 False = Some (Inr r, ls')
     \<and> or_null (resp_cursor r) \<noteq> pc_cursor \<lparr>pc_posts = [example_thread ''p0''], pc_cursor = Some ''c0'', pc_handle = HANDLE\<rparr>"
    using feed_api_first_page by simp
  have d: "effectPending (ui ?st)" by (simp add: initial_state_def)
  show ?thesis using stale_refresh_loops [OF h f o n d, of 3] by (simp add: initial_state_def)
qed


end
